theory Spec2Isabelle
  imports Complex_Main "HOL-Library.Word" "HOL-Library.Monad_Syntax" "HOL-Library.Signed_Division"
begin

unbundle bit_operations_syntax

section \<open>Memory accesses and loops\<close>

text \<open>
  Every function of the class is modelled in the option monad. \<open>None\<close> stands for a run
  whose behaviour the C++ standard leaves undefined: an index outside an array, an access
  through a pointer that was never allocated, a floating-point division by zero. The C++
  type \<open>double\<close> is modelled by \<open>real\<close>, so rounding is not part of the model.
\<close>

definition load :: "'a list \<Rightarrow> int \<Rightarrow> 'a option" where
  "load xs i = (if 0 \<le> i \<and> i < int (length xs) then Some (xs ! nat i) else None)"

definition store :: "'a list \<Rightarrow> int \<Rightarrow> 'a \<Rightarrow> 'a list option" where
  "store xs i v = (if 0 \<le> i \<and> i < int (length xs) then Some (xs[nat i := v]) else None)"

text \<open>A \<open>for\<close> loop over the listed index values, threading the state through the body.\<close>

fun for_each :: "'i list \<Rightarrow> ('i \<Rightarrow> 's \<Rightarrow> 's option) \<Rightarrow> 's \<Rightarrow> 's option" where
  "for_each [] body s = Some s"
| "for_each (i # rest) body s = (case body i s of None \<Rightarrow> None | Some t \<Rightarrow> for_each rest body t)"

section \<open>Bit masks\<close>

text \<open>
  Modelled from the spec: the macros \<open>BITS_RAISED\<close>, \<open>RAISE_BITS\<close> and \<open>LOWER_BITS\<close> are
  defined in a header that is not part of the sources at hand. They are the bit-mask
  flag operations their names say. The flag constants \<open>GEOELM_NEXI\<close> and \<open>GEOELM_STEN\<close>
  are parameters of the functions below, and so is the width of the mask type.
\<close>

definition BITS_RAISED :: "'m::len word \<Rightarrow> 'm word \<Rightarrow> bool" where
  "BITS_RAISED x bits \<longleftrightarrow> x AND bits = bits"

definition RAISE_BITS :: "'m::len word \<Rightarrow> 'm word \<Rightarrow> 'm word" where
  "RAISE_BITS x bits = x OR bits"

definition LOWER_BITS :: "'m::len word \<Rightarrow> 'm word \<Rightarrow> 'm word" where
  "LOWER_BITS x bits = x AND NOT bits"

section \<open>Vectors\<close>

text \<open>
  Modelled from the spec: the class \<open>GeoVector\<close> and its operators come from a header
  that is not part of the sources at hand. A vector has three Cartesian components;
  \<open>v * w\<close> on two vectors is the scalar product, \<open>v * a\<close> and \<open>v / a\<close> scale by a number.
\<close>

datatype GeoVector = GeoVector real real real

definition gv_zeros :: GeoVector where
  "gv_zeros = GeoVector 0 0 0"

fun gv_comp :: "GeoVector \<Rightarrow> int \<Rightarrow> real option" where
  "gv_comp (GeoVector x y z) col =
     (if col = 0 then Some x else if col = 1 then Some y else if col = 2 then Some z else None)"

fun gv_add :: "GeoVector \<Rightarrow> GeoVector \<Rightarrow> GeoVector" where
  "gv_add (GeoVector x y z) (GeoVector x' y' z') = GeoVector (x + x') (y + y') (z + z')"

fun gv_scale :: "GeoVector \<Rightarrow> real \<Rightarrow> GeoVector" where
  "gv_scale (GeoVector x y z) a = GeoVector (x * a) (y * a) (z * a)"

fun gv_dot :: "GeoVector \<Rightarrow> GeoVector \<Rightarrow> real" where
  "gv_dot (GeoVector x y z) (GeoVector x' y' z') = x * x' + y * y' + z * z'"

fun gv_div :: "GeoVector \<Rightarrow> real \<Rightarrow> GeoVector option" where
  "gv_div (GeoVector x y z) a = (if a = 0 then None else Some (GeoVector (x / a) (y / a) (z / a)))"

section \<open>The block\<close>

type_synonym matrix = "real list list"

text \<open>
  The members of \<open>StenciledBlock\<close> and those members of its base class \<open>GridBlock\<close> that
  the functions below use. A zone list pointer is \<open>None\<close> until its array is allocated.
\<close>

record 'w StenciledBlock =
  n_faces_withghost :: int
  n_edges_withghost :: int
  total_length :: int
  ghost_width :: int
  face_index_sector :: "int list list"
  face_mask :: "'w list"
  edge_mask :: "'w list"
  fv_local :: "int list list"
  ev_local :: "int list list"
  ff_local :: "int list list"
  block_vert_cart :: "GeoVector list"
  face_area :: "real list"
  face_cmass :: "GeoVector list"
  edge_length :: "real list"
  zones_per_stencil :: "int list"
  stencil_zonelist :: "int list option list list"
  geom_matr_At :: "matrix list list"
  geom_matr_LU :: "matrix list list"

section \<open>ComputeMoments\<close>

text \<open>\<open>block_vert_cart[fv_local[face][k]]\<close>\<close>

definition face_vertex :: "'m::len word StenciledBlock \<Rightarrow> int \<Rightarrow> int \<Rightarrow> GeoVector option" where
  "face_vertex b face k = do {
     row \<leftarrow> load (fv_local b) face;
     v \<leftarrow> load row k;
     load (block_vert_cart b) v
   }"

text \<open>\<open>block_vert_cart[ev_local[edge][k]]\<close>\<close>

definition edge_vertex :: "'m::len word StenciledBlock \<Rightarrow> int \<Rightarrow> int \<Rightarrow> GeoVector option" where
  "edge_vertex b edge k = do {
     row \<leftarrow> load (ev_local b) edge;
     v \<leftarrow> load row k;
     load (block_vert_cart b) v
   }"

text \<open>
  The two sub-triangles of a face: \<open>(area1, area2, cm1, cm2)\<close>. The kernels \<open>SphTriArea\<close>
  and \<open>SphTriCenter\<close> are parameters. The class template is instantiated for 3 and for 4
  vertices per face only.
\<close>

definition face_triangles ::
  "(GeoVector \<Rightarrow> GeoVector \<Rightarrow> GeoVector \<Rightarrow> real) \<Rightarrow> (GeoVector \<Rightarrow> GeoVector \<Rightarrow> GeoVector \<Rightarrow> GeoVector)
    \<Rightarrow> int \<Rightarrow> 'm::len word StenciledBlock \<Rightarrow> int \<Rightarrow> (real \<times> real \<times> GeoVector \<times> GeoVector) option" where
  "face_triangles SphTriArea SphTriCenter verts_per_face b face =
     (if verts_per_face = 3 then do {
        v0 \<leftarrow> face_vertex b face 0;
        v1 \<leftarrow> face_vertex b face 1;
        v2 \<leftarrow> face_vertex b face 2;
        Some (SphTriArea v0 v1 v2, 0, SphTriCenter v0 v1 v2, gv_zeros)
      }
      else if verts_per_face = 4 then do {
        v0 \<leftarrow> face_vertex b face 0;
        v1 \<leftarrow> face_vertex b face 1;
        v2 \<leftarrow> face_vertex b face 2;
        v3 \<leftarrow> face_vertex b face 3;
        Some (SphTriArea v0 v1 v2, SphTriArea v2 v3 v0, SphTriCenter v0 v1 v2, SphTriCenter v2 v3 v0)
      }
      else None)"

text \<open>The body of the loop over the faces.\<close>

definition ComputeMoments_face ::
  "(GeoVector \<Rightarrow> GeoVector \<Rightarrow> GeoVector \<Rightarrow> real) \<Rightarrow> (GeoVector \<Rightarrow> GeoVector \<Rightarrow> GeoVector \<Rightarrow> GeoVector)
    \<Rightarrow> int \<Rightarrow> 'm::len word \<Rightarrow> int \<Rightarrow> 'm word StenciledBlock \<Rightarrow> 'm word StenciledBlock option" where
  "ComputeMoments_face SphTriArea SphTriCenter verts_per_face GEOELM_NEXI face b = do {
     flags \<leftarrow> load (face_mask b) face;
     if BITS_RAISED flags GEOELM_NEXI then do {
       fa \<leftarrow> store (face_area b) face 0;
       fc \<leftarrow> store (face_cmass b) face gv_zeros;
       Some (b\<lparr>face_area := fa, face_cmass := fc\<rparr>)
     }
     else do {
       (area1, area2, cm1, cm2) \<leftarrow> face_triangles SphTriArea SphTriCenter verts_per_face b face;
       fa \<leftarrow> store (face_area b) face (area1 + area2);
       total \<leftarrow> load fa face;
       cm \<leftarrow> gv_div (gv_add (gv_scale cm1 area1) (gv_scale cm2 area2)) total;
       fc \<leftarrow> store (face_cmass b) face cm;
       Some (b\<lparr>face_area := fa, face_cmass := fc\<rparr>)
     }
   }"

text \<open>The body of the loop over the edges.\<close>

definition ComputeMoments_edge :: "'m::len word \<Rightarrow> int \<Rightarrow> 'm word StenciledBlock \<Rightarrow> 'm word StenciledBlock option" where
  "ComputeMoments_edge GEOELM_NEXI edge b = do {
     flags \<leftarrow> load (edge_mask b) edge;
     if BITS_RAISED flags GEOELM_NEXI then do {
       v0 \<leftarrow> edge_vertex b edge 0;
       v1 \<leftarrow> edge_vertex b edge 1;
       el \<leftarrow> store (edge_length b) edge (arccos (gv_dot v0 v1));
       Some (b\<lparr>edge_length := el\<rparr>)
     }
     else Some b
   }"

definition ComputeMoments ::
  "(GeoVector \<Rightarrow> GeoVector \<Rightarrow> GeoVector \<Rightarrow> real) \<Rightarrow> (GeoVector \<Rightarrow> GeoVector \<Rightarrow> GeoVector \<Rightarrow> GeoVector)
    \<Rightarrow> int \<Rightarrow> 'm::len word \<Rightarrow> 'm word StenciledBlock \<Rightarrow> 'm word StenciledBlock option" where
  "ComputeMoments SphTriArea SphTriCenter verts_per_face GEOELM_NEXI b = do {
     b1 \<leftarrow> for_each [0 .. n_faces_withghost b - 1]
             (ComputeMoments_face SphTriArea SphTriCenter verts_per_face GEOELM_NEXI) b;
     for_each [0 .. n_edges_withghost b - 1] (ComputeMoments_edge GEOELM_NEXI) b1
   }"

section \<open>BuildAllStencils\<close>

text \<open>
  Modelled from the spec: the constant \<open>n_stencils\<close> is declared in the class header,
  which is not part of the sources at hand: one central stencil and two directional
  stencils for each side of the face.
\<close>

definition n_stencils :: "int \<Rightarrow> int" where
  "n_stencils verts_per_face = 2 * verts_per_face + 1"

text \<open>
  Modelled from the spec: the helper \<open>InList\<close> is defined elsewhere. It gives the position
  of the first of the first \<open>n\<close> elements of the array that equals \<open>val\<close>, and \<open>-1\<close> when
  there is none.
\<close>

fun InList_from :: "int \<Rightarrow> 'a list \<Rightarrow> 'a \<Rightarrow> int" where
  "InList_from i [] val = - 1"
| "InList_from i (x # xs) val = (if x = val then i else InList_from (i + 1) xs val)"

definition InList :: "int \<Rightarrow> 'a list \<Rightarrow> 'a \<Rightarrow> int" where
  "InList n array val = InList_from 0 (take (nat n) array) val"

type_synonym zonelists = "int list option list list"

text \<open>The array \<open>stencil_zonelist[pface][stencil]\<close>, when the indices are in range and it is allocated.\<close>

definition zonelist_of :: "zonelists \<Rightarrow> int \<Rightarrow> int \<Rightarrow> int list option" where
  "zonelist_of zls pface stencil = do {
     row \<leftarrow> load zls pface;
     cell \<leftarrow> load row stencil;
     cell
   }"

text \<open>Reading \<open>stencil_zonelist[pface][stencil][k]\<close>.\<close>

definition zl_load :: "zonelists \<Rightarrow> int \<Rightarrow> int \<Rightarrow> int \<Rightarrow> int option" where
  "zl_load zls pface stencil k = do {
     zl \<leftarrow> zonelist_of zls pface stencil;
     load zl k
   }"

text \<open>The assignment \<open>stencil_zonelist[pface][stencil][k] = v\<close>.\<close>

definition zl_store :: "zonelists \<Rightarrow> int \<Rightarrow> int \<Rightarrow> int \<Rightarrow> int \<Rightarrow> zonelists option" where
  "zl_store zls pface stencil k v = do {
     row \<leftarrow> load zls pface;
     cell \<leftarrow> load row stencil;
     zl \<leftarrow> cell;
     zl' \<leftarrow> store zl k v;
     row' \<leftarrow> store row stencil (Some zl');
     store zls pface row'
   }"

text \<open>
  The chained assignment
  \<open>stencil_zonelist[pface][stencil][k] = stencil_zonelist[pface][stencil + verts_per_face][k] = v\<close>.
\<close>

definition zl_store_pair :: "int \<Rightarrow> zonelists \<Rightarrow> int \<Rightarrow> int \<Rightarrow> int \<Rightarrow> int \<Rightarrow> zonelists option" where
  "zl_store_pair verts_per_face zls pface stencil k v = do {
     zls' \<leftarrow> zl_store zls pface (stencil + verts_per_face) k v;
     zl_store zls' pface stencil k v
   }"

definition set_zones_per_stencil :: "int \<Rightarrow> int list \<Rightarrow> int list option" where
  "set_zones_per_stencil verts_per_face zps = do {
     zps0 \<leftarrow> store zps 0 (verts_per_face + 2);
     for_each [1 .. n_stencils verts_per_face - 1] (\<lambda>stencil z. store z stencil 4) zps0
   }"

text \<open>
  Storage for the stencil sets. \<open>new int[n]\<close> does not initialise the array; \<open>junk\<close>
  stands for what its cells hold before they are written.
\<close>

definition allocate_zonelists ::
  "int \<Rightarrow> int \<Rightarrow> 'm::len word \<Rightarrow> 'm word StenciledBlock \<Rightarrow> zonelists option" where
  "allocate_zonelists junk verts_per_face GEOELM_STEN b =
     for_each [0 .. n_faces_withghost b - 1]
       (\<lambda>pface zls. do {
          flags \<leftarrow> load (face_mask b) pface;
          if BITS_RAISED flags GEOELM_STEN then
            for_each [0 .. n_stencils verts_per_face - 1]
              (\<lambda>stencil zls. do {
                 n \<leftarrow> load (zones_per_stencil b) stencil;
                 row \<leftarrow> load zls pface;
                 row' \<leftarrow> store row stencil (Some (replicate (nat (2 * n)) junk));
                 store zls pface row'
               }) zls
          else Some zls
        })
       (replicate (nat (n_faces_withghost b)) (replicate (nat (n_stencils verts_per_face)) None))"

definition central_stencil :: "int \<Rightarrow> int \<Rightarrow> 'm::len word StenciledBlock \<Rightarrow> zonelists \<Rightarrow> zonelists option" where
  "central_stencil verts_per_face pface b zls = do {
     zls1 \<leftarrow> for_each [0 .. verts_per_face - 1]
       (\<lambda>ic zls. do {
          nbrs \<leftarrow> load (ff_local b) pface;
          face \<leftarrow> load nbrs ic;
          zls' \<leftarrow> zl_store zls pface 0 (2 * ic) face;
          zl_store zls' pface 0 (2 * ic + 1) 0
        }) zls;
     zls2 \<leftarrow> zl_store zls1 pface 0 (2 * verts_per_face) pface;
     zls3 \<leftarrow> zl_store zls2 pface 0 (2 * verts_per_face + 1) (- 1);
     zls4 \<leftarrow> zl_store zls3 pface 0 (2 * verts_per_face + 2) pface;
     zl_store zls4 pface 0 (2 * verts_per_face + 3) 1
   }"

text \<open>
  One pass of the loop over the directional stencils. The constant \<open>square_fill\<close> is
  declared in a header that is not part of the sources at hand; it is a parameter.
  The operator \<open>%\<close> of C++ truncates towards zero: \<open>smod\<close>.
\<close>

definition directional_stencil ::
  "int \<Rightarrow> int \<Rightarrow> int \<Rightarrow> int \<Rightarrow> 'm::len word StenciledBlock \<Rightarrow> zonelists \<Rightarrow> zonelists option" where
  "directional_stencil verts_per_face square_fill pface stencil b zls = do {
     nbrs \<leftarrow> load (ff_local b) pface;
     nface \<leftarrow> load nbrs (stencil - 1);
     zls0 \<leftarrow> zl_store_pair verts_per_face zls pface stencil 0 nface;
     zls1 \<leftarrow> zl_store_pair verts_per_face zls0 pface stencil 1 0;
     nnbrs \<leftarrow> load (ff_local b) nface;
     flank1 \<leftarrow> load nnbrs ((InList verts_per_face nnbrs pface + 1) smod verts_per_face);
     zls2 \<leftarrow> zl_store_pair verts_per_face zls1 pface stencil 2 flank1;
     zls3 \<leftarrow> zl_store_pair verts_per_face zls2 pface stencil 3 0;
     flank2 \<leftarrow> load nnbrs ((InList verts_per_face nnbrs pface + 4 - square_fill) smod verts_per_face);
     zls4 \<leftarrow> zl_store_pair verts_per_face zls3 pface stencil 4 flank2;
     zls5 \<leftarrow> zl_store_pair verts_per_face zls4 pface stencil 5 0;
     zls6 \<leftarrow> zl_store_pair verts_per_face zls5 pface stencil 6 nface;
     zls7 \<leftarrow> zl_store zls6 pface stencil 7 (- 1);
     zl_store zls7 pface (stencil + verts_per_face) 7 1
   }"

text \<open>The body of the loop that calculates the zone lists.\<close>

definition BuildAllStencils_face ::
  "int \<Rightarrow> int \<Rightarrow> 'm::len word \<Rightarrow> 'm word StenciledBlock \<Rightarrow> int \<Rightarrow> zonelists \<Rightarrow> zonelists option" where
  "BuildAllStencils_face verts_per_face square_fill GEOELM_STEN b pface zls = do {
     flags \<leftarrow> load (face_mask b) pface;
     if BITS_RAISED flags GEOELM_STEN then do {
       zls1 \<leftarrow> central_stencil verts_per_face pface b zls;
       for_each [1 .. verts_per_face]
         (\<lambda>stencil. directional_stencil verts_per_face square_fill pface stencil b) zls1
     }
     else Some zls
   }"

definition BuildAllStencils ::
  "int \<Rightarrow> int \<Rightarrow> int \<Rightarrow> 'm::len word \<Rightarrow> 'm word StenciledBlock \<Rightarrow> 'm word StenciledBlock option" where
  "BuildAllStencils junk verts_per_face square_fill GEOELM_STEN b = do {
     zps \<leftarrow> set_zones_per_stencil verts_per_face (zones_per_stencil b);
     zls0 \<leftarrow> allocate_zonelists junk verts_per_face GEOELM_STEN (b\<lparr>zones_per_stencil := zps\<rparr>);
     zls \<leftarrow> for_each [0 .. n_faces_withghost b - 1]
              (BuildAllStencils_face verts_per_face square_fill GEOELM_STEN b) zls0;
     Some (b\<lparr>zones_per_stencil := zps, stencil_zonelist := zls\<rparr>)
   }"

section \<open>MarkStenciledArea\<close>

text \<open>
  One pass of an inner loop: \<open>face = face_index_sector[i][j]\<close>, then the macro applied to
  \<open>face_mask[face]\<close>.
\<close>

definition update_face_mask ::
  "('m::len word \<Rightarrow> 'm word) \<Rightarrow> 'm word StenciledBlock \<Rightarrow> int \<Rightarrow> int \<Rightarrow> 'm word list \<Rightarrow> 'm word list option" where
  "update_face_mask f b i j fm = do {
     row \<leftarrow> load (face_index_sector b) i;
     face \<leftarrow> load row j;
     flags \<leftarrow> load fm face;
     store fm face (f flags)
   }"

text \<open>
  Mark the interior and one layer of faces. The functions \<open>MaxFaceJ\<close> and \<open>MaxVertJ\<close>
  belong to the base class and are parameters, as is the constant \<open>square_fill\<close>.
\<close>

definition mark_interior ::
  "(int \<times> int \<Rightarrow> int \<Rightarrow> int \<Rightarrow> int) \<Rightarrow> int \<Rightarrow> 'm::len word \<Rightarrow> 'm word StenciledBlock
    \<Rightarrow> 'm word list \<Rightarrow> 'm word list option" where
  "mark_interior MaxFaceJ square_fill GEOELM_STEN b fm =
     (let imax = total_length b - ghost_width b;
          base_vert = (square_fill * (ghost_width b - 1), ghost_width b - 1)
      in for_each [square_fill * ghost_width b .. imax]
           (\<lambda>i. for_each
                  [square_fill * (ghost_width b - 1) ..
                     MaxFaceJ base_vert (total_length b - square_fill * ghost_width b + 1) i]
                  (update_face_mask (\<lambda>x. RAISE_BITS x GEOELM_STEN) b i))
           fm)"

text \<open>Clip the small triangles at the SE corner.\<close>

definition clip_SE ::
  "(int \<times> int \<Rightarrow> int \<Rightarrow> int \<Rightarrow> int) \<Rightarrow> int \<Rightarrow> 'm::len word \<Rightarrow> 'm word StenciledBlock
    \<Rightarrow> 'm word list \<Rightarrow> 'm word list option" where
  "clip_SE MaxFaceJ square_fill GEOELM_STEN b fm =
     (let imax = total_length b - ghost_width b;
          base_vert = (total_length b - ghost_width b - 1, ghost_width b - 1)
      in for_each [imax - 1 .. imax]
           (\<lambda>i. for_each [square_fill * (ghost_width b - 1) .. MaxFaceJ base_vert 2 i]
                  (update_face_mask (\<lambda>x. LOWER_BITS x GEOELM_STEN) b i))
           fm)"

text \<open>Clip the small triangles at the N corner.\<close>

definition clip_N ::
  "(int \<times> int \<Rightarrow> int \<Rightarrow> int \<Rightarrow> int) \<Rightarrow> (int \<Rightarrow> int \<Rightarrow> int) \<Rightarrow> 'm::len word \<Rightarrow> 'm word StenciledBlock
    \<Rightarrow> 'm word list \<Rightarrow> 'm word list option" where
  "clip_N MaxFaceJ MaxVertJ GEOELM_STEN b fm =
     (let imax = total_length b - ghost_width b;
          base_vert = (total_length b - ghost_width b - 1,
                       MaxVertJ (total_length b) (total_length b - ghost_width b - 1) - ghost_width b + 1)
      in for_each [imax - 1 .. imax]
           (\<lambda>i. for_each [MaxFaceJ base_vert 2 (imax - 1) .. MaxFaceJ base_vert 2 i]
                  (update_face_mask (\<lambda>x. LOWER_BITS x GEOELM_STEN) b i))
           fm)"

definition MarkStenciledArea ::
  "(int \<times> int \<Rightarrow> int \<Rightarrow> int \<Rightarrow> int) \<Rightarrow> (int \<Rightarrow> int \<Rightarrow> int) \<Rightarrow> int \<Rightarrow> int \<Rightarrow> 'm::len word
    \<Rightarrow> 'm word StenciledBlock \<Rightarrow> 'm word StenciledBlock option" where
  "MarkStenciledArea MaxFaceJ MaxVertJ verts_per_face square_fill GEOELM_STEN b = do {
     fm1 \<leftarrow> mark_interior MaxFaceJ square_fill GEOELM_STEN b (face_mask b);
     fm3 \<leftarrow> (if verts_per_face = 3 then do {
                fm2 \<leftarrow> clip_SE MaxFaceJ square_fill GEOELM_STEN b fm1;
                clip_N MaxFaceJ MaxVertJ GEOELM_STEN b fm2
              }
              else Some fm1);
     Some (b\<lparr>face_mask := fm3\<rparr>)
   }"

text \<open>The faces that the loops of the two clipping passes visit.\<close>

definition sector_faces :: "'m::len word StenciledBlock \<Rightarrow> (int \<times> int) list \<Rightarrow> int set" where
  "sector_faces b cells =
     {face. \<exists>(i, j) \<in> set cells. \<exists>row. load (face_index_sector b) i = Some row \<and> load row j = Some face}"

definition SE_wedge :: "(int \<times> int \<Rightarrow> int \<Rightarrow> int \<Rightarrow> int) \<Rightarrow> int \<Rightarrow> 'm::len word StenciledBlock \<Rightarrow> (int \<times> int) list" where
  "SE_wedge MaxFaceJ square_fill b =
     (let imax = total_length b - ghost_width b;
          base_vert = (total_length b - ghost_width b - 1, ghost_width b - 1)
      in concat (map (\<lambda>i. map (Pair i) [square_fill * (ghost_width b - 1) .. MaxFaceJ base_vert 2 i])
                  [imax - 1 .. imax]))"

definition N_wedge ::
  "(int \<times> int \<Rightarrow> int \<Rightarrow> int \<Rightarrow> int) \<Rightarrow> (int \<Rightarrow> int \<Rightarrow> int) \<Rightarrow> 'm::len word StenciledBlock \<Rightarrow> (int \<times> int) list" where
  "N_wedge MaxFaceJ MaxVertJ b =
     (let imax = total_length b - ghost_width b;
          base_vert = (total_length b - ghost_width b - 1,
                       MaxVertJ (total_length b) (total_length b - ghost_width b - 1) - ghost_width b + 1)
      in concat (map (\<lambda>i. map (Pair i) [MaxFaceJ base_vert 2 (imax - 1) .. MaxFaceJ base_vert 2 i])
                  [imax - 1 .. imax]))"

section \<open>ComputeOneMatrix\<close>

text \<open>The \<open>switch\<close> on the plane of a zone.\<close>

definition rp_factor :: "real \<Rightarrow> int \<Rightarrow> real option" where
  "rp_factor drp_ratio plane =
     (if plane = - 1 then Some (1 + drp_ratio)
      else if plane = 1 then (if 1 + drp_ratio = 0 then None else Some (1 / (1 + drp_ratio)))
      else Some 1)"

text \<open>\<open>rp_factor * face_cmass[face][col] - face_cmass[pface][col]\<close>\<close>

definition matrix_entry :: "'m::len word StenciledBlock \<Rightarrow> real \<Rightarrow> int \<Rightarrow> int \<Rightarrow> int \<Rightarrow> real option" where
  "matrix_entry b rp face pface col = do {
     zc \<leftarrow> load (face_cmass b) face;
     z \<leftarrow> gv_comp zc col;
     pc \<leftarrow> load (face_cmass b) pface;
     p \<leftarrow> gv_comp pc col;
     Some (rp * z - p)
   }"

text \<open>One row of the geometry matrix: one zone of the stencil.\<close>

definition matrix_row :: "real \<Rightarrow> int \<Rightarrow> int \<Rightarrow> 'm::len word StenciledBlock \<Rightarrow> int \<Rightarrow> real list option" where
  "matrix_row drp_ratio pface stencil b row = do {
     face \<leftarrow> zl_load (stencil_zonelist b) pface stencil (2 * row);
     plane \<leftarrow> zl_load (stencil_zonelist b) pface stencil (2 * row + 1);
     rp \<leftarrow> rp_factor drp_ratio plane;
     a0 \<leftarrow> matrix_entry b rp face pface 0;
     a1 \<leftarrow> matrix_entry b rp face pface 1;
     a2 \<leftarrow> matrix_entry b rp face pface 2;
     Some [a0, a1, a2]
   }"

text \<open>A loop that fills the rows of a fresh matrix one after the other.\<close>

fun map_each :: "'i list \<Rightarrow> ('i \<Rightarrow> 'a option) \<Rightarrow> 'a list option" where
  "map_each [] f = Some []"
| "map_each (i # rest) f =
     (case f i of None \<Rightarrow> None
      | Some x \<Rightarrow> (case map_each rest f of None \<Rightarrow> None | Some xs \<Rightarrow> Some (x # xs)))"

definition geom_matr_A :: "real \<Rightarrow> int \<Rightarrow> int \<Rightarrow> 'm::len word StenciledBlock \<Rightarrow> matrix option" where
  "geom_matr_A drp_ratio pface stencil b = do {
     n \<leftarrow> load (zones_per_stencil b) stencil;
     map_each [0 .. n - 1] (matrix_row drp_ratio pface stencil b)
   }"

text \<open>
  Modelled from the spec: the matrix classes are those of the Eigen library. A matrix is
  the list of its rows; the factorisation kept in \<open>geom_matr_LU\<close> is represented by the
  matrix \<open>AtA\<close> that it is computed from.
\<close>

definition mat_mul :: "matrix \<Rightarrow> matrix \<Rightarrow> matrix" where
  "mat_mul A B = map (\<lambda>r. map (\<lambda>c. sum_list (map2 (*) r c)) (transpose B)) A"

definition store2 :: "'a list list \<Rightarrow> int \<Rightarrow> int \<Rightarrow> 'a \<Rightarrow> 'a list list option" where
  "store2 xss i j v = do {
     row \<leftarrow> load xss i;
     row' \<leftarrow> store row j v;
     store xss i row'
   }"

definition ComputeOneMatrix ::
  "real \<Rightarrow> int \<Rightarrow> int \<Rightarrow> 'm::len word StenciledBlock \<Rightarrow> 'm word StenciledBlock option" where
  "ComputeOneMatrix drp_ratio pface stencil b = do {
     A \<leftarrow> geom_matr_A drp_ratio pface stencil b;
     At \<leftarrow> store2 (geom_matr_At b) pface stencil (transpose A);
     LU \<leftarrow> store2 (geom_matr_LU b) pface stencil (mat_mul (transpose A) A);
     Some (b\<lparr>geom_matr_At := At, geom_matr_LU := LU\<rparr>)
   }"

section \<open>SetDimensions and AssociateMesh\<close>

text \<open>
  The phases of the construction of a block. A run of \<open>SetDimensions\<close> or of
  \<open>AssociateMesh\<close> carries, next to the block, the list of the phases it has completed,
  in the order of their completion.
\<close>

datatype phase = Moments | RegionMarking | StencilBuild | MatrixBuild

definition run_phase ::
  "phase \<Rightarrow> ('s \<Rightarrow> 's option) \<Rightarrow> 's \<times> phase list \<Rightarrow> ('s \<times> phase list) option" where
  "run_phase p f = (\<lambda>(s, trace). do { s' \<leftarrow> f s; Some (s', trace @ [p]) })"

text \<open>
  \<open>SetDimensions\<close>. The method of the base class is a parameter. \<open>new double[n]\<close> and
  \<open>new GeoVector[n]\<close> do not initialise their arrays: \<open>junk_d\<close> and \<open>junk_v\<close> stand for
  what the cells hold.
\<close>

definition SetDimensions ::
  "(int \<Rightarrow> int \<Rightarrow> int \<Rightarrow> int \<Rightarrow> bool \<Rightarrow> 'm::len word StenciledBlock \<Rightarrow> 'm word StenciledBlock option)
    \<Rightarrow> (int \<times> int \<Rightarrow> int \<Rightarrow> int \<Rightarrow> int) \<Rightarrow> (int \<Rightarrow> int \<Rightarrow> int) \<Rightarrow> real \<Rightarrow> GeoVector
    \<Rightarrow> int \<Rightarrow> int \<Rightarrow> 'm word
    \<Rightarrow> int \<Rightarrow> int \<Rightarrow> int \<Rightarrow> int \<Rightarrow> bool
    \<Rightarrow> 'm word StenciledBlock \<times> phase list \<Rightarrow> ('m word StenciledBlock \<times> phase list) option" where
  "SetDimensions GridBlock_SetDimensions MaxFaceJ MaxVertJ junk_d junk_v
       verts_per_face square_fill GEOELM_STEN width wghost height hghost constr =
     (\<lambda>(b, trace). do {
        b0 \<leftarrow> (if \<not> constr then GridBlock_SetDimensions width wghost height hghost False b else Some b);
        let b1 = b0\<lparr>face_area := replicate (nat (n_faces_withghost b0)) junk_d,
                    face_cmass := replicate (nat (n_faces_withghost b0)) junk_v,
                    edge_length := replicate (nat (n_edges_withghost b0)) junk_d\<rparr>;
        (b2, trace2) \<leftarrow> run_phase RegionMarking
            (MarkStenciledArea MaxFaceJ MaxVertJ verts_per_face square_fill GEOELM_STEN) (b1, trace);
        Some (b2\<lparr>stencil_zonelist :=
                    replicate (nat (n_faces_withghost b2)) (replicate (nat (n_stencils verts_per_face)) None),
                 geom_matr_At :=
                    replicate (nat (n_faces_withghost b2)) (replicate (nat (n_stencils verts_per_face)) []),
                 geom_matr_LU :=
                    replicate (nat (n_faces_withghost b2)) (replicate (nat (n_stencils verts_per_face)) [])\<rparr>,
              trace2)
      })"

text \<open>
  \<open>AssociateMesh\<close>. The method of the base class, applied to the arguments of the call,
  is a parameter.
\<close>

definition AssociateMesh ::
  "('m::len word StenciledBlock \<Rightarrow> 'm word StenciledBlock option)
    \<Rightarrow> (GeoVector \<Rightarrow> GeoVector \<Rightarrow> GeoVector \<Rightarrow> real) \<Rightarrow> (GeoVector \<Rightarrow> GeoVector \<Rightarrow> GeoVector \<Rightarrow> GeoVector)
    \<Rightarrow> int \<Rightarrow> real \<Rightarrow> int \<Rightarrow> int \<Rightarrow> 'm word \<Rightarrow> 'm word
    \<Rightarrow> 'm word StenciledBlock \<times> phase list \<Rightarrow> ('m word StenciledBlock \<times> phase list) option" where
  "AssociateMesh GridBlock_AssociateMesh SphTriArea SphTriCenter junk drp_ratio
       verts_per_face square_fill GEOELM_NEXI GEOELM_STEN =
     (\<lambda>(b, trace). do {
        b0 \<leftarrow> GridBlock_AssociateMesh b;
        st1 \<leftarrow> run_phase StencilBuild (BuildAllStencils junk verts_per_face square_fill GEOELM_STEN) (b0, trace);
        st2 \<leftarrow> run_phase Moments (ComputeMoments SphTriArea SphTriCenter verts_per_face GEOELM_NEXI) st1;
        for_each [0 .. n_faces_withghost (fst st2) - 1]
          (\<lambda>pface st. do {
             flags \<leftarrow> load (face_mask (fst st)) pface;
             if BITS_RAISED flags GEOELM_STEN then
               for_each [0 .. n_stencils verts_per_face - 1]
                 (\<lambda>stencil. run_phase MatrixBuild (ComputeOneMatrix drp_ratio pface stencil)) st
             else Some st
           }) st2
      })"

text \<open>The construction of a block: the constructor, then the association of a mesh.\<close>

definition construct_block ::
  "(int \<times> int \<Rightarrow> int \<Rightarrow> int \<Rightarrow> int) \<Rightarrow> (int \<Rightarrow> int \<Rightarrow> int) \<Rightarrow> real \<Rightarrow> GeoVector
    \<Rightarrow> ('m::len word StenciledBlock \<Rightarrow> 'm word StenciledBlock option)
    \<Rightarrow> (GeoVector \<Rightarrow> GeoVector \<Rightarrow> GeoVector \<Rightarrow> real) \<Rightarrow> (GeoVector \<Rightarrow> GeoVector \<Rightarrow> GeoVector \<Rightarrow> GeoVector)
    \<Rightarrow> int \<Rightarrow> real \<Rightarrow> int \<Rightarrow> int \<Rightarrow> 'm word \<Rightarrow> 'm word
    \<Rightarrow> int \<Rightarrow> int \<Rightarrow> int \<Rightarrow> int
    \<Rightarrow> 'm word StenciledBlock \<Rightarrow> ('m word StenciledBlock \<times> phase list) option" where
  "construct_block MaxFaceJ MaxVertJ junk_d junk_v GridBlock_AssociateMesh SphTriArea SphTriCenter junk drp_ratio
       verts_per_face square_fill GEOELM_NEXI GEOELM_STEN width wghost height hghost b = do {
     st \<leftarrow> SetDimensions (\<lambda>w wg h hg c. Some) MaxFaceJ MaxVertJ junk_d junk_v
             verts_per_face square_fill GEOELM_STEN width wghost height hghost True (b, []);
     AssociateMesh GridBlock_AssociateMesh SphTriArea SphTriCenter junk drp_ratio
       verts_per_face square_fill GEOELM_NEXI GEOELM_STEN st
   }"

text \<open>The phases of a list \<open>trace\<close> follow each other in the order of the list \<open>order\<close>.\<close>

fun phase_rank :: "phase list \<Rightarrow> phase \<Rightarrow> nat" where
  "phase_rank [] p = 0"
| "phase_rank (q # qs) p = (if p = q then 0 else Suc (phase_rank qs p))"

definition in_phase_order :: "phase list \<Rightarrow> phase list \<Rightarrow> bool" where
  "in_phase_order order trace \<longleftrightarrow> sorted (map (phase_rank order) trace)"

section \<open>Example blocks\<close>

text \<open>A stand-in for the kernel \<open>SphTriCenter\<close>: the mean of the three vertices.\<close>

definition mean_center :: "GeoVector \<Rightarrow> GeoVector \<Rightarrow> GeoVector \<Rightarrow> GeoVector" where
  "mean_center a b c = gv_scale (gv_add (gv_add a b) c) (1 / 3)"

text \<open>
  Two quadrilateral faces and one edge; \<open>GEOELM_NEXI\<close> is bit 0. Face 0 does not exist,
  face 1 and the edge exist.
\<close>

definition quad_block :: "16 word StenciledBlock" where
  "quad_block = \<lparr>n_faces_withghost = 2, n_edges_withghost = 1, total_length = 0, ghost_width = 0,
     face_index_sector = [], face_mask = [1, 0], edge_mask = [0],
     fv_local = [[- 1, - 1, - 1, - 1], [0, 1, 2, 3]], ev_local = [[0, 1]], ff_local = [],
     block_vert_cart = [GeoVector 1 0 0, GeoVector 0 1 0, GeoVector 0 0 1, GeoVector (3 / 5) 0 (4 / 5)],
     face_area = [7, 7], face_cmass = [GeoVector 7 7 7, GeoVector 7 7 7], edge_length = [7],
     zones_per_stencil = [], stencil_zonelist = [], geom_matr_At = [], geom_matr_LU = []\<rparr>"





text \<open>
  Stand-ins for the functions \<open>MaxFaceJ\<close> and \<open>MaxVertJ\<close> of the base class in the example
  below.
\<close>

definition toy_MaxFaceJ :: "int \<times> int \<Rightarrow> int \<Rightarrow> int \<Rightarrow> int" where
  "toy_MaxFaceJ base_vert len i = snd base_vert + 2 * (i - fst base_vert)"

definition toy_MaxVertJ :: "int \<Rightarrow> int \<Rightarrow> int" where
  "toy_MaxVertJ len i = i"

text \<open>
  A block of triangles before the region is marked: seven faces, of which the faces 0 to 3
  exist and share four vertices; \<open>GEOELM_NEXI\<close> is bit 0 and \<open>GEOELM_STEN\<close> is bit 1.
\<close>

definition tri_block :: "16 word StenciledBlock" where
  "tri_block = \<lparr>n_faces_withghost = 7, n_edges_withghost = 0, total_length = 3, ghost_width = 1,
     face_index_sector = [[], [5, 6], [1, 2, 3, 4, 0]],
     face_mask = [0, 0, 0, 0, 1, 1, 1], edge_mask = [],
     fv_local = [[0, 1, 2], [0, 1, 3], [1, 2, 3], [0, 2, 3], [- 1, - 1, - 1], [- 1, - 1, - 1], [- 1, - 1, - 1]],
     ev_local = [],
     ff_local = [[1, 2, 3], [2, 0, 3], [0, 3, 1], [0, 1, 2], [- 1, - 1, - 1], [- 1, - 1, - 1], [- 1, - 1, - 1]],
     block_vert_cart = [GeoVector 1 0 0, GeoVector 0 1 0, GeoVector 0 0 1, GeoVector 0 0 (- 1)],
     face_area = [], face_cmass = [], edge_length = [],
     zones_per_stencil = [0, 0, 0, 0, 0, 0, 0], stencil_zonelist = [], geom_matr_At = [], geom_matr_LU = []\<rparr>"

text \<open>The same block once face 0 is marked, and once its stencils are built.\<close>

definition tri_marked :: "16 word StenciledBlock" where
  "tri_marked = tri_block\<lparr>face_mask := [2, 0, 0, 0, 1, 1, 1]\<rparr>"

definition tri_stenciled :: "16 word StenciledBlock" where
  "tri_stenciled = tri_marked\<lparr>zones_per_stencil := [5, 4, 4, 4, 4, 4, 4],
     stencil_zonelist :=
       [[Some [1, 0, 2, 0, 3, 0, 0, - 1, 0, 1], Some [1, 0, 3, 0, 2, 0, 1, - 1],
         Some [2, 0, 3, 0, 1, 0, 2, - 1], Some [3, 0, 1, 0, 2, 0, 3, - 1],
         Some [1, 0, 3, 0, 2, 0, 1, 1], Some [2, 0, 3, 0, 1, 0, 2, 1],
         Some [3, 0, 1, 0, 2, 0, 3, 1]],
        [None, None, None, None, None, None, None], [None, None, None, None, None, None, None],
        [None, None, None, None, None, None, None], [None, None, None, None, None, None, None],
        [None, None, None, None, None, None, None], [None, None, None, None, None, None, None]]\<rparr>"

text \<open>
  The statement that the pair of directional stencils \<open>s\<close> and \<open>s + verts_per_face\<close> of a
  face has four zones each, the same first three zones, and the principal face itself
  as the last zone, on the plane \<open>-1\<close> and on the plane \<open>+1\<close>.
\<close>

definition principal_last_zone :: "int \<Rightarrow> zonelists \<Rightarrow> int \<Rightarrow> int \<Rightarrow> bool" where
  "principal_last_zone verts_per_face zls pface s \<longleftrightarrow>
     (case zonelist_of zls pface s of
        None \<Rightarrow> False
      | Some down \<Rightarrow>
          (case zonelist_of zls pface (s + verts_per_face) of
             None \<Rightarrow> False
           | Some up \<Rightarrow> length down = 8 \<and> length up = 8 \<and> take 6 down = take 6 up
               \<and> drop 6 down = [pface, - 1] \<and> drop 6 up = [pface, 1]))"

text \<open>
  The statement that the two flanking zones of the directional stencil \<open>s\<close> are the
  neighbours of the face \<open>N\<close> across the side at the offsets \<open>(p + 1) mod verts_per_face\<close> and
  \<open>(p + verts_per_face - (verts_per_face == 4 ? 1 : 0)) mod verts_per_face\<close>, where \<open>p\<close> is
  the position of the principal face among the neighbours of \<open>N\<close>.
\<close>

definition flanks_as_stated :: "int \<Rightarrow> 'm::len word StenciledBlock \<Rightarrow> zonelists \<Rightarrow> int \<Rightarrow> int \<Rightarrow> bool" where
  "flanks_as_stated verts_per_face b zls pface s \<longleftrightarrow>
     (case do { nbrs \<leftarrow> load (ff_local b) pface; nface \<leftarrow> load nbrs (s - 1); load (ff_local b) nface } of
        None \<Rightarrow> False
      | Some nnbrs \<Rightarrow>
          (let p = InList verts_per_face nnbrs pface
           in zl_load zls pface s 2 = load nnbrs ((p + 1) mod verts_per_face)
            \<and> zl_load zls pface s 4 =
                load nnbrs ((p + verts_per_face - (if verts_per_face = 4 then 1 else 0)) mod verts_per_face)))"

section \<open>Loops\<close>

lemma for_each_invariant:
  assumes "for_each xs body s = Some s'" and "I s"
    and "\<And>i s t. i \<in> set xs \<Longrightarrow> I s \<Longrightarrow> body i s = Some t \<Longrightarrow> I t"
  shows "I s'"
  using assms
proof (induction xs arbitrary: s)
  case Nil
  then show ?case by simp
next
  case (Cons i xs)
  from Cons.prems(1) obtain t where t: "body i s = Some t" "for_each xs body t = Some s'"
    by (auto split: option.splits)
  have "I t" using Cons.prems(3) [of i s t] Cons.prems(2) t(1) by simp
  show ?case
  proof (rule Cons.IH [OF t(2) \<open>I t\<close>])
    fix j u v assume "j \<in> set xs" "I u" "body j u = Some v"
    then show "I v" using Cons.prems(3) [of j u v] by simp
  qed
qed

lemma for_each_slot:
  assumes run: "for_each xs body s = Some s'" and "distinct xs" and "k \<in> set xs" and "I s"
    and inv: "\<And>i s t. i \<in> set xs \<Longrightarrow> I s \<Longrightarrow> body i s = Some t \<Longrightarrow> I t"
    and other: "\<And>i s t. i \<in> set xs \<Longrightarrow> i \<noteq> k \<Longrightarrow> I s \<Longrightarrow> body i s = Some t \<Longrightarrow> slot t = slot s"
    and own: "\<And>s t. I s \<Longrightarrow> body k s = Some t \<Longrightarrow> P (slot t)"
  shows "P (slot s')"
  using assms
proof (induction xs arbitrary: s)
  case Nil
  then show ?case by simp
next
  case (Cons i xs)
  from Cons.prems(1) obtain t where t: "body i s = Some t" "for_each xs body t = Some s'"
    by (auto split: option.splits)
  have It: "I t" using Cons.prems(5) [of i s t] Cons.prems(4) t(1) by simp
  show ?case
  proof (cases "i = k")
    case True
    then have "k \<notin> set xs" using Cons.prems(2) by simp
    have "P (slot t)" using Cons.prems(7) [of s t] Cons.prems(4) t(1) True by simp
    moreover have "I s' \<and> slot s' = slot t"
    proof (rule for_each_invariant [where I = "\<lambda>u. I u \<and> slot u = slot t", OF t(2)])
      show "I t \<and> slot t = slot t" using It by simp
    next
      fix j u v assume j: "j \<in> set xs" "I u \<and> slot u = slot t" "body j u = Some v"
      then have "j \<noteq> k" using \<open>k \<notin> set xs\<close> by auto
      then show "I v \<and> slot v = slot t"
        using Cons.prems(5) [of j u v] Cons.prems(6) [of j u v] j by simp
    qed
    ultimately show ?thesis by simp
  next
    case False
    then have "k \<in> set xs" using Cons.prems(3) by simp
    show ?thesis
    proof (rule Cons.IH [OF t(2) _ \<open>k \<in> set xs\<close> It])
      show "distinct xs" using Cons.prems(2) by simp
    next
      fix j u v assume "j \<in> set xs" "I u" "body j u = Some v"
      then show "I v" using Cons.prems(5) [of j u v] by simp
    next
      fix j u v assume "j \<in> set xs" "j \<noteq> k" "I u" "body j u = Some v"
      then show "slot v = slot u" using Cons.prems(6) [of j u v] by simp
    next
      fix u v assume "I u" "body k u = Some v"
      then show "P (slot v)" using Cons.prems(7) [of u v] by simp
    qed
  qed
qed

lemma for_each_total:
  assumes "I s" and "\<And>i s. i \<in> set xs \<Longrightarrow> I s \<Longrightarrow> \<exists>t. body i s = Some t \<and> I t"
  shows "\<exists>s'. for_each xs body s = Some s' \<and> I s'"
  using assms
proof (induction xs arbitrary: s)
  case Nil
  then show ?case by simp
next
  case (Cons i xs)
  from Cons.prems(2) [of i s] Cons.prems(1) obtain t where t: "body i s = Some t" "I t" by auto
  have "\<exists>s'. for_each xs body t = Some s' \<and> I s'"
  proof (rule Cons.IH [OF t(2)])
    fix j u assume "j \<in> set xs" "I u"
    then show "\<exists>v. body j u = Some v \<and> I v" using Cons.prems(2) [of j u] by simp
  qed
  then show ?case using t(1) by simp
qed

section \<open>Arrays\<close>

lemma load_Some_iff: "load xs i = Some v \<longleftrightarrow> 0 \<le> i \<and> i < int (length xs) \<and> xs ! nat i = v"
  by (auto simp: load_def)

lemma store_Some_iff: "store xs i v = Some ys \<longleftrightarrow> 0 \<le> i \<and> i < int (length xs) \<and> ys = xs[nat i := v]"
  by (auto simp: store_def)

lemma load_store_same: "store xs i v = Some ys \<Longrightarrow> load ys i = Some v"
  by (auto simp: load_def store_def split: if_splits)

lemma load_store_other: "store xs i v = Some ys \<Longrightarrow> j \<noteq> i \<Longrightarrow> load ys j = load xs j"
  by (auto simp: load_def store_def split: if_splits)

section \<open>ComputeMoments\<close>

















text \<open>
  C2. The loop over the edges tests the same flag \<open>GEOELM_NEXI\<close> that marks a face as not
  existing in the loop over the faces, without the negation. On the example block the
  only edge exists and joins the vertices \<open>(1, 0, 0)\<close> and \<open>(0, 1, 0)\<close>: its length stays
  at the value 7 that the array held before. With the flag raised on the same edge, the
  length is computed.
\<close>

theorem existing_edge_length_untouched:
  "load (edge_mask quad_block) 0 = Some 0 \<and> \<not> BITS_RAISED (0 :: 16 word) 1
   \<and> edge_vertex quad_block 0 0 = Some (GeoVector 1 0 0)
   \<and> edge_vertex quad_block 0 1 = Some (GeoVector 0 1 0)
   \<and> map_option edge_length (ComputeMoments (\<lambda>a b c. 1 / 2) mean_center 4 1 quad_block) = Some [7]
   \<and> map_option edge_length
        (ComputeMoments (\<lambda>a b c. 1 / 2) mean_center 4 1 (quad_block\<lparr>edge_mask := [1]\<rparr>)) = Some [pi / 2]"
  by (simp add: upto.simps ComputeMoments_def ComputeMoments_face_def ComputeMoments_edge_def quad_block_def
      face_triangles_def face_vertex_def edge_vertex_def load_def store_def BITS_RAISED_def mean_center_def
      gv_zeros_def)





section \<open>ComputeOneMatrix\<close>











section \<open>Zone lists as a memory of cells\<close>

lemma load_update_same: "0 \<le> i \<Longrightarrow> i < int (length xs) \<Longrightarrow> load (xs[nat i := v]) i = Some v"
  by (simp add: load_def)

lemma load_update_other: "0 \<le> i \<Longrightarrow> j \<noteq> i \<Longrightarrow> load (xs[nat i := v]) j = load xs j"
proof (cases "0 \<le> j")
  case True
  assume "0 \<le> i" "j \<noteq> i"
  with True have "nat j \<noteq> nat i" by simp
  then show ?thesis by (simp add: load_def)
next
  case False
  then show ?thesis by (simp add: load_def)
qed

lemma load_in_range: "0 \<le> i \<Longrightarrow> i < int (length xs) \<Longrightarrow> load xs i = Some (xs ! nat i)"
  by (simp add: load_def)

lemma zl_store_shape:
  assumes "zl_store zls p s k v = Some zls'"
  shows "\<exists>row zl. 0 \<le> p \<and> p < int (length zls) \<and> zls ! nat p = row
    \<and> 0 \<le> s \<and> s < int (length row) \<and> row ! nat s = Some zl
    \<and> 0 \<le> k \<and> k < int (length zl)
    \<and> zls' = zls[nat p := row[nat s := Some (zl[nat k := v])]]"
  using assms by (auto simp: zl_store_def bind_eq_Some_conv load_Some_iff store_Some_iff)

lemma zonelist_of_update:
  assumes "0 \<le> p" "p < int (length zls)" "0 \<le> s" "s < int (length (zls ! nat p))"
  shows "zonelist_of (zls[nat p := (zls ! nat p)[nat s := Some zl]]) p' s' =
    (if p' = p \<and> s' = s then Some zl else zonelist_of zls p' s')"
proof (cases "p' = p")
  case True
  show ?thesis
  proof (cases "s' = s")
    case True
    with \<open>p' = p\<close> assms show ?thesis by (simp add: zonelist_of_def load_def)
  next
    case False
    with \<open>p' = p\<close> assms show ?thesis
      by (simp add: zonelist_of_def load_update_same load_update_other load_in_range)
  qed
next
  case False
  with assms show ?thesis by (simp add: zonelist_of_def load_update_other)
qed

lemma zl_store_zonelist:
  assumes "zl_store zls p s k v = Some zls'"
  shows "\<exists>zl. zonelist_of zls p s = Some zl \<and> 0 \<le> k \<and> k < int (length zl)
    \<and> (\<forall>p' s'. zonelist_of zls' p' s' = (if p' = p \<and> s' = s then Some (zl[nat k := v]) else zonelist_of zls p' s'))"
proof -
  from zl_store_shape [OF assms] obtain zl where
    r: "0 \<le> p" "p < int (length zls)" "0 \<le> s" "s < int (length (zls ! nat p))"
       "(zls ! nat p) ! nat s = Some zl" "0 \<le> k" "k < int (length zl)"
       "zls' = zls[nat p := (zls ! nat p)[nat s := Some (zl[nat k := v])]]"
    by blast
  have "zonelist_of zls p s = Some zl" using r(1-5) by (simp add: zonelist_of_def load_def)
  moreover have "\<forall>p' s'. zonelist_of zls' p' s' = (if p' = p \<and> s' = s then Some (zl[nat k := v]) else zonelist_of zls p' s')"
    unfolding r(8) using zonelist_of_update [OF r(1-4)] by blast
  ultimately show ?thesis using r(6,7) by blast
qed

lemma zl_store_same:
  assumes "zl_store zls p s k v = Some zls'"
  shows "zl_load zls' p s k = Some v"
proof -
  from zl_store_zonelist [OF assms] obtain zl where
    "0 \<le> k" "k < int (length zl)" "zonelist_of zls' p s = Some (zl[nat k := v])"
    by (metis (full_types))
  then show ?thesis by (simp add: zl_load_def load_update_same)
qed

lemma zl_store_other:
  assumes "zl_store zls p s k v = Some zls'" and "p' \<noteq> p \<or> s' \<noteq> s \<or> k' \<noteq> k"
  shows "zl_load zls' p' s' k' = zl_load zls p' s' k'"
proof -
  from zl_store_zonelist [OF assms(1)] obtain zl where
    z: "zonelist_of zls p s = Some zl" "0 \<le> k" "k < int (length zl)"
    "\<And>p' s'. zonelist_of zls' p' s' = (if p' = p \<and> s' = s then Some (zl[nat k := v]) else zonelist_of zls p' s')"
    by blast
  show ?thesis
  proof (cases "p' = p \<and> s' = s")
    case True
    with assms(2) have "k' \<noteq> k" by blast
    with True z show ?thesis by (simp add: zl_load_def load_update_other)
  next
    case False
    with z(4) [of p' s'] show ?thesis by (auto simp: zl_load_def)
  qed
qed

lemma zl_store_length:
  assumes "zl_store zls p s k v = Some zls'"
  shows "map_option length (zonelist_of zls' p' s') = map_option length (zonelist_of zls p' s')"
proof -
  from zl_store_zonelist [OF assms] obtain zl where
    z: "zonelist_of zls p s = Some zl"
    "\<And>p' s'. zonelist_of zls' p' s' = (if p' = p \<and> s' = s then Some (zl[nat k := v]) else zonelist_of zls p' s')"
    by blast
  show ?thesis using z(1) z(2) [of p' s'] by auto
qed

lemma zl_store_pair_same:
  assumes "zl_store_pair vpf zls p s k v = Some zls'" and "vpf \<noteq> 0"
  shows "zl_load zls' p s k = Some v \<and> zl_load zls' p (s + vpf) k = Some v"
proof -
  from assms(1) obtain z1 where
    a: "zl_store zls p (s + vpf) k v = Some z1" and b: "zl_store z1 p s k v = Some zls'"
    by (auto simp: zl_store_pair_def bind_eq_Some_conv)
  have "zl_load zls' p (s + vpf) k = zl_load z1 p (s + vpf) k"
    using zl_store_other [OF b, of p "s + vpf" k] assms(2) by simp
  then show ?thesis using zl_store_same [OF a] zl_store_same [OF b] by simp
qed

lemma zl_store_pair_other:
  assumes "zl_store_pair vpf zls p s k v = Some zls'"
    and "p' \<noteq> p \<or> (s' \<noteq> s \<and> s' \<noteq> s + vpf) \<or> k' \<noteq> k"
  shows "zl_load zls' p' s' k' = zl_load zls p' s' k'"
proof -
  from assms(1) obtain z1 where
    a: "zl_store zls p (s + vpf) k v = Some z1" and b: "zl_store z1 p s k v = Some zls'"
    by (auto simp: zl_store_pair_def bind_eq_Some_conv)
  have "zl_load zls' p' s' k' = zl_load z1 p' s' k'"
    using zl_store_other [OF b, of p' s' k'] assms(2) by blast
  also have "\<dots> = zl_load zls p' s' k'"
    using zl_store_other [OF a, of p' s' k'] assms(2) by blast
  finally show ?thesis .
qed

lemma zl_store_pair_length:
  assumes "zl_store_pair vpf zls p s k v = Some zls'"
  shows "map_option length (zonelist_of zls' p' s') = map_option length (zonelist_of zls p' s')"
proof -
  from assms(1) obtain z1 where
    a: "zl_store zls p (s + vpf) k v = Some z1" and b: "zl_store z1 p s k v = Some zls'"
    by (auto simp: zl_store_pair_def bind_eq_Some_conv)
  show ?thesis using zl_store_length [OF a, of p' s'] zl_store_length [OF b, of p' s'] by simp
qed


section \<open>One directional pass\<close>

lemma directional_stencil_split:
  assumes "directional_stencil vpf sf p s b zls = Some zls'"
  obtains nbrs nface nnbrs flank1 flank2 z0 z1 z2 z3 z4 z5 z6 z7 where
    "load (ff_local b) p = Some nbrs" "load nbrs (s - 1) = Some nface"
    "load (ff_local b) nface = Some nnbrs"
    "load nnbrs ((InList vpf nnbrs p + 1) smod vpf) = Some flank1"
    "load nnbrs ((InList vpf nnbrs p + 4 - sf) smod vpf) = Some flank2"
    "zl_store_pair vpf zls p s 0 nface = Some z0"
    "zl_store_pair vpf z0 p s 1 0 = Some z1"
    "zl_store_pair vpf z1 p s 2 flank1 = Some z2"
    "zl_store_pair vpf z2 p s 3 0 = Some z3"
    "zl_store_pair vpf z3 p s 4 flank2 = Some z4"
    "zl_store_pair vpf z4 p s 5 0 = Some z5"
    "zl_store_pair vpf z5 p s 6 nface = Some z6"
    "zl_store z6 p s 7 (- 1) = Some z7"
    "zl_store z7 p (s + vpf) 7 1 = Some zls'"
  using assms unfolding directional_stencil_def bind_eq_Some_conv by (elim exE conjE) blast

lemma directional_stencil_other:
  assumes "directional_stencil vpf sf p s b zls = Some zls'"
    and "p' \<noteq> p \<or> (s' \<noteq> s \<and> s' \<noteq> s + vpf)"
  shows "zl_load zls' p' s' k' = zl_load zls p' s' k'"
proof -
  from assms(1) obtain nface flank1 flank2 z0 z1 z2 z3 z4 z5 z6 z7 where
    st: "zl_store_pair vpf zls p s 0 nface = Some z0"
    "zl_store_pair vpf z0 p s 1 0 = Some z1"
    "zl_store_pair vpf z1 p s 2 flank1 = Some z2"
    "zl_store_pair vpf z2 p s 3 0 = Some z3"
    "zl_store_pair vpf z3 p s 4 flank2 = Some z4"
    "zl_store_pair vpf z4 p s 5 0 = Some z5"
    "zl_store_pair vpf z5 p s 6 nface = Some z6"
    "zl_store z6 p s 7 (- 1) = Some z7"
    "zl_store z7 p (s + vpf) 7 1 = Some zls'"
    by (rule directional_stencil_split)
  have o: "p' \<noteq> p \<or> (s' \<noteq> s \<and> s' \<noteq> s + vpf) \<or> k' \<noteq> k" for k using assms(2) by blast
  have o7: "p' \<noteq> p \<or> s' \<noteq> s \<or> k' \<noteq> 7" "p' \<noteq> p \<or> s' \<noteq> s + vpf \<or> k' \<noteq> 7"
    using assms(2) by blast+
  show ?thesis
    using zl_store_pair_other [OF st(1) o] zl_store_pair_other [OF st(2) o]
      zl_store_pair_other [OF st(3) o] zl_store_pair_other [OF st(4) o]
      zl_store_pair_other [OF st(5) o] zl_store_pair_other [OF st(6) o]
      zl_store_pair_other [OF st(7) o] zl_store_other [OF st(8) o7(1)] zl_store_other [OF st(9) o7(2)]
    by simp
qed

lemma directional_stencil_length:
  assumes "directional_stencil vpf sf p s b zls = Some zls'"
  shows "map_option length (zonelist_of zls' p' s') = map_option length (zonelist_of zls p' s')"
proof -
  from assms(1) obtain nface flank1 flank2 z0 z1 z2 z3 z4 z5 z6 z7 where
    st: "zl_store_pair vpf zls p s 0 nface = Some z0"
    "zl_store_pair vpf z0 p s 1 0 = Some z1"
    "zl_store_pair vpf z1 p s 2 flank1 = Some z2"
    "zl_store_pair vpf z2 p s 3 0 = Some z3"
    "zl_store_pair vpf z3 p s 4 flank2 = Some z4"
    "zl_store_pair vpf z4 p s 5 0 = Some z5"
    "zl_store_pair vpf z5 p s 6 nface = Some z6"
    "zl_store z6 p s 7 (- 1) = Some z7"
    "zl_store z7 p (s + vpf) 7 1 = Some zls'"
    by (rule directional_stencil_split)
  show ?thesis
    using zl_store_pair_length [OF st(1), of p' s'] zl_store_pair_length [OF st(2), of p' s']
      zl_store_pair_length [OF st(3), of p' s'] zl_store_pair_length [OF st(4), of p' s']
      zl_store_pair_length [OF st(5), of p' s'] zl_store_pair_length [OF st(6), of p' s']
      zl_store_pair_length [OF st(7), of p' s'] zl_store_length [OF st(8), of p' s']
      zl_store_length [OF st(9), of p' s']
    by simp
qed

text \<open>The eight cells of the two zone lists that one directional pass fills.\<close>

lemma directional_stencil_cells:
  assumes run: "directional_stencil vpf sf p s b zls = Some zls'" and vpf: "vpf \<noteq> 0"
  shows "\<exists>nbrs nface nnbrs flank1 flank2.
      load (ff_local b) p = Some nbrs \<and> load nbrs (s - 1) = Some nface
    \<and> load (ff_local b) nface = Some nnbrs
    \<and> load nnbrs ((InList vpf nnbrs p + 1) smod vpf) = Some flank1
    \<and> load nnbrs ((InList vpf nnbrs p + 4 - sf) smod vpf) = Some flank2
    \<and> map (zl_load zls' p s) [0, 1, 2, 3, 4, 5, 6, 7]
        = map Some [nface, 0, flank1, 0, flank2, 0, nface, - 1]
    \<and> map (zl_load zls' p (s + vpf)) [0, 1, 2, 3, 4, 5, 6, 7]
        = map Some [nface, 0, flank1, 0, flank2, 0, nface, 1]"
proof -
  from run obtain nbrs nface nnbrs flank1 flank2 z0 z1 z2 z3 z4 z5 z6 z7 where
    rd: "load (ff_local b) p = Some nbrs" "load nbrs (s - 1) = Some nface"
    "load (ff_local b) nface = Some nnbrs"
    "load nnbrs ((InList vpf nnbrs p + 1) smod vpf) = Some flank1"
    "load nnbrs ((InList vpf nnbrs p + 4 - sf) smod vpf) = Some flank2"
    and st: "zl_store_pair vpf zls p s 0 nface = Some z0"
    "zl_store_pair vpf z0 p s 1 0 = Some z1"
    "zl_store_pair vpf z1 p s 2 flank1 = Some z2"
    "zl_store_pair vpf z2 p s 3 0 = Some z3"
    "zl_store_pair vpf z3 p s 4 flank2 = Some z4"
    "zl_store_pair vpf z4 p s 5 0 = Some z5"
    "zl_store_pair vpf z5 p s 6 nface = Some z6"
    "zl_store z6 p s 7 (- 1) = Some z7"
    "zl_store z7 p (s + vpf) 7 1 = Some zls'"
    by (rule directional_stencil_split)
  note same = zl_store_pair_same [OF st(1) vpf] zl_store_pair_same [OF st(2) vpf]
    zl_store_pair_same [OF st(3) vpf] zl_store_pair_same [OF st(4) vpf]
    zl_store_pair_same [OF st(5) vpf] zl_store_pair_same [OF st(6) vpf]
    zl_store_pair_same [OF st(7) vpf] zl_store_same [OF st(8)] zl_store_same [OF st(9)]
  have other: "zl_load z' p t k' = zl_load z p t k'"
    if "zl_store_pair vpf z p s k v = Some z'" "k' \<noteq> k" for z z' k v k' t
    using zl_store_pair_other [OF that(1), of p t k'] that(2) by simp
  have last1: "zl_load z7 p t k' = zl_load z6 p t k'" if "t \<noteq> s \<or> k' \<noteq> 7" for t k'
    using zl_store_other [OF st(8), of p t k'] that by blast
  have last2: "zl_load zls' p t k' = zl_load z7 p t k'" if "t \<noteq> s + vpf \<or> k' \<noteq> 7" for t k'
    using zl_store_other [OF st(9), of p t k'] that by blast
  have ne: "s \<noteq> s + vpf" "s + vpf \<noteq> s" using vpf by simp_all
  have down: "zl_load zls' p s 0 = Some nface" "zl_load zls' p s 1 = Some 0"
    "zl_load zls' p s 2 = Some flank1" "zl_load zls' p s 3 = Some 0"
    "zl_load zls' p s 4 = Some flank2" "zl_load zls' p s 5 = Some 0"
    "zl_load zls' p s 6 = Some nface" "zl_load zls' p s 7 = Some (- 1)"
    using same ne by (simp_all add: last1 last2 other [OF st(1)] other [OF st(2)] other [OF st(3)]
        other [OF st(4)] other [OF st(5)] other [OF st(6)] other [OF st(7)])
  have up: "zl_load zls' p (s + vpf) 0 = Some nface" "zl_load zls' p (s + vpf) 1 = Some 0"
    "zl_load zls' p (s + vpf) 2 = Some flank1" "zl_load zls' p (s + vpf) 3 = Some 0"
    "zl_load zls' p (s + vpf) 4 = Some flank2" "zl_load zls' p (s + vpf) 5 = Some 0"
    "zl_load zls' p (s + vpf) 6 = Some nface" "zl_load zls' p (s + vpf) 7 = Some 1"
    using same ne by (simp_all add: last1 last2 other [OF st(1)] other [OF st(2)] other [OF st(3)]
        other [OF st(4)] other [OF st(5)] other [OF st(6)] other [OF st(7)])
  show ?thesis
    by (rule exI [of _ nbrs], rule exI [of _ nface], rule exI [of _ nnbrs], rule exI [of _ flank1],
        rule exI [of _ flank2]) (simp add: rd down up)
qed


section \<open>The central stencil\<close>

lemma central_pass:
  assumes "do { nbrs \<leftarrow> load (ff_local b) p; face \<leftarrow> load nbrs ic;
               zls' \<leftarrow> zl_store z p 0 (2 * ic) face; zl_store zls' p 0 (2 * ic + 1) 0 } = Some z'"
  obtains nbrs face z1 where "load (ff_local b) p = Some nbrs" "load nbrs ic = Some face"
    "zl_store z p 0 (2 * ic) face = Some z1" "zl_store z1 p 0 (2 * ic + 1) 0 = Some z'"
  using assms unfolding bind_eq_Some_conv by (elim exE conjE) blast

lemma central_stencil_split:
  assumes "central_stencil vpf p b zls = Some zls'"
  obtains z1 z2 z3 z4 where
    "for_each [0 .. vpf - 1]
       (\<lambda>ic zls. do { nbrs \<leftarrow> load (ff_local b) p; face \<leftarrow> load nbrs ic;
                      zls' \<leftarrow> zl_store zls p 0 (2 * ic) face; zl_store zls' p 0 (2 * ic + 1) 0 }) zls = Some z1"
    "zl_store z1 p 0 (2 * vpf) p = Some z2" "zl_store z2 p 0 (2 * vpf + 1) (- 1) = Some z3"
    "zl_store z3 p 0 (2 * vpf + 2) p = Some z4" "zl_store z4 p 0 (2 * vpf + 3) 1 = Some zls'"
  using assms unfolding central_stencil_def bind_eq_Some_conv by (elim exE conjE) blast

lemma central_stencil_other:
  assumes "central_stencil vpf p b zls = Some zls'" and "p' \<noteq> p \<or> s' \<noteq> 0"
  shows "zl_load zls' p' s' k' = zl_load zls p' s' k'"
proof -
  from assms(1) obtain z1 z2 z3 z4 where
    loop: "for_each [0 .. vpf - 1]
       (\<lambda>ic zls. do { nbrs \<leftarrow> load (ff_local b) p; face \<leftarrow> load nbrs ic;
                      zls' \<leftarrow> zl_store zls p 0 (2 * ic) face; zl_store zls' p 0 (2 * ic + 1) 0 }) zls = Some z1"
    and st: "zl_store z1 p 0 (2 * vpf) p = Some z2" "zl_store z2 p 0 (2 * vpf + 1) (- 1) = Some z3"
    "zl_store z3 p 0 (2 * vpf + 2) p = Some z4" "zl_store z4 p 0 (2 * vpf + 3) 1 = Some zls'"
    by (rule central_stencil_split)
  have o: "p' \<noteq> p \<or> s' \<noteq> 0 \<or> k' \<noteq> k" for k using assms(2) by blast
  have "zl_load z1 p' s' k' = zl_load zls p' s' k'"
  proof (rule for_each_invariant [where I = "\<lambda>z. zl_load z p' s' k' = zl_load zls p' s' k'", OF loop])
    show "zl_load zls p' s' k' = zl_load zls p' s' k'" by simp
  next
    fix ic z z'
    assume I: "zl_load z p' s' k' = zl_load zls p' s' k'"
      and step: "do { nbrs \<leftarrow> load (ff_local b) p; face \<leftarrow> load nbrs ic;
               zls' \<leftarrow> zl_store z p 0 (2 * ic) face; zl_store zls' p 0 (2 * ic + 1) 0 } = Some z'"
    from step obtain face y where a: "zl_store z p 0 (2 * ic) face = Some y"
      and c: "zl_store y p 0 (2 * ic + 1) 0 = Some z'"
      by (rule central_pass)
    show "zl_load z' p' s' k' = zl_load zls p' s' k'"
      using zl_store_other [OF a o] zl_store_other [OF c o] I by simp
  qed
  then show ?thesis
    using zl_store_other [OF st(1) o] zl_store_other [OF st(2) o] zl_store_other [OF st(3) o]
      zl_store_other [OF st(4) o] by simp
qed

lemma central_stencil_length:
  assumes "central_stencil vpf p b zls = Some zls'"
  shows "map_option length (zonelist_of zls' p' s') = map_option length (zonelist_of zls p' s')"
proof -
  from assms(1) obtain z1 z2 z3 z4 where
    loop: "for_each [0 .. vpf - 1]
       (\<lambda>ic zls. do { nbrs \<leftarrow> load (ff_local b) p; face \<leftarrow> load nbrs ic;
                      zls' \<leftarrow> zl_store zls p 0 (2 * ic) face; zl_store zls' p 0 (2 * ic + 1) 0 }) zls = Some z1"
    and st: "zl_store z1 p 0 (2 * vpf) p = Some z2" "zl_store z2 p 0 (2 * vpf + 1) (- 1) = Some z3"
    "zl_store z3 p 0 (2 * vpf + 2) p = Some z4" "zl_store z4 p 0 (2 * vpf + 3) 1 = Some zls'"
    by (rule central_stencil_split)
  let ?L = "\<lambda>z. map_option length (zonelist_of z p' s')"
  have "?L z1 = ?L zls"
  proof (rule for_each_invariant [where I = "\<lambda>z. ?L z = ?L zls", OF loop])
    show "?L zls = ?L zls" by simp
  next
    fix ic z z'
    assume I: "?L z = ?L zls"
      and step: "do { nbrs \<leftarrow> load (ff_local b) p; face \<leftarrow> load nbrs ic;
               zls' \<leftarrow> zl_store z p 0 (2 * ic) face; zl_store zls' p 0 (2 * ic + 1) 0 } = Some z'"
    from step obtain face y where a: "zl_store z p 0 (2 * ic) face = Some y"
      and c: "zl_store y p 0 (2 * ic + 1) 0 = Some z'"
      by (rule central_pass)
    show "?L z' = ?L zls"
      using zl_store_length [OF a, of p' s'] zl_store_length [OF c, of p' s'] I by simp
  qed
  then show ?thesis
    using zl_store_length [OF st(1), of p' s'] zl_store_length [OF st(2), of p' s']
      zl_store_length [OF st(3), of p' s'] zl_store_length [OF st(4), of p' s'] by simp
qed

lemma central_stencil_tail:
  assumes "central_stencil vpf p b zls = Some zls'"
  shows "zl_load zls' p 0 (2 * vpf) = Some p \<and> zl_load zls' p 0 (2 * vpf + 1) = Some (- 1)
    \<and> zl_load zls' p 0 (2 * vpf + 2) = Some p \<and> zl_load zls' p 0 (2 * vpf + 3) = Some 1"
proof -
  from assms(1) obtain z1 z2 z3 z4 where
    st: "zl_store z1 p 0 (2 * vpf) p = Some z2" "zl_store z2 p 0 (2 * vpf + 1) (- 1) = Some z3"
    "zl_store z3 p 0 (2 * vpf + 2) p = Some z4" "zl_store z4 p 0 (2 * vpf + 3) 1 = Some zls'"
    by (rule central_stencil_split)
  have "zl_load zls' p 0 (2 * vpf) = zl_load z2 p 0 (2 * vpf)"
    using zl_store_other [OF st(2), of p 0 "2 * vpf"] zl_store_other [OF st(3), of p 0 "2 * vpf"]
      zl_store_other [OF st(4), of p 0 "2 * vpf"] by simp
  moreover have "zl_load zls' p 0 (2 * vpf + 1) = zl_load z3 p 0 (2 * vpf + 1)"
    using zl_store_other [OF st(3), of p 0 "2 * vpf + 1"]
      zl_store_other [OF st(4), of p 0 "2 * vpf + 1"] by simp
  moreover have "zl_load zls' p 0 (2 * vpf + 2) = zl_load z4 p 0 (2 * vpf + 2)"
    using zl_store_other [OF st(4), of p 0 "2 * vpf + 2"] by simp
  ultimately show ?thesis
    using zl_store_same [OF st(1)] zl_store_same [OF st(2)] zl_store_same [OF st(3)]
      zl_store_same [OF st(4)] by simp
qed

lemma central_stencil_neighbours:
  assumes run: "central_stencil vpf p b zls = Some zls'" and ic: "0 \<le> ic" "ic < vpf"
  shows "\<exists>nbrs face. load (ff_local b) p = Some nbrs \<and> load nbrs ic = Some face
    \<and> zl_load zls' p 0 (2 * ic) = Some face \<and> zl_load zls' p 0 (2 * ic + 1) = Some 0"
proof -
  from run obtain z1 z2 z3 z4 where
    loop: "for_each [0 .. vpf - 1]
       (\<lambda>ic zls. do { nbrs \<leftarrow> load (ff_local b) p; face \<leftarrow> load nbrs ic;
                      zls' \<leftarrow> zl_store zls p 0 (2 * ic) face; zl_store zls' p 0 (2 * ic + 1) 0 }) zls = Some z1"
    and st: "zl_store z1 p 0 (2 * vpf) p = Some z2" "zl_store z2 p 0 (2 * vpf + 1) (- 1) = Some z3"
    "zl_store z3 p 0 (2 * vpf + 2) p = Some z4" "zl_store z4 p 0 (2 * vpf + 3) 1 = Some zls'"
    by (rule central_stencil_split)
  let ?slot = "\<lambda>z. (zl_load z p 0 (2 * ic), zl_load z p 0 (2 * ic + 1))"
  let ?P = "\<lambda>sl. \<exists>nbrs face. load (ff_local b) p = Some nbrs \<and> load nbrs ic = Some face
    \<and> sl = (Some face, Some 0)"
  have "?P (?slot z1)"
  proof (rule for_each_slot [where I = "\<lambda>z. True" and k = ic and slot = ?slot and P = ?P, OF loop])
    show "distinct [0 .. vpf - 1]" by simp
    show "ic \<in> set [0 .. vpf - 1]" using ic by simp
  next
    fix i z z'
    assume ne: "i \<noteq> ic"
      and step: "do { nbrs \<leftarrow> load (ff_local b) p; face \<leftarrow> load nbrs i;
               zls' \<leftarrow> zl_store z p 0 (2 * i) face; zl_store zls' p 0 (2 * i + 1) 0 } = Some z'"
    from step obtain face y where a: "zl_store z p 0 (2 * i) face = Some y"
      and c: "zl_store y p 0 (2 * i + 1) 0 = Some z'"
      by (rule central_pass)
    have d: "2 * ic \<noteq> 2 * i" "2 * ic \<noteq> 2 * i + 1" "2 * ic + 1 \<noteq> 2 * i" "2 * ic + 1 \<noteq> 2 * i + 1"
      using ne by presburger+
    show "?slot z' = ?slot z"
      using zl_store_other [OF a, of p 0 "2 * ic"] zl_store_other [OF c, of p 0 "2 * ic"]
        zl_store_other [OF a, of p 0 "2 * ic + 1"] zl_store_other [OF c, of p 0 "2 * ic + 1"] d
      by simp
  next
    fix z z'
    assume step: "do { nbrs \<leftarrow> load (ff_local b) p; face \<leftarrow> load nbrs ic;
               zls' \<leftarrow> zl_store z p 0 (2 * ic) face; zl_store zls' p 0 (2 * ic + 1) 0 } = Some z'"
    from step obtain nbrs face y where r: "load (ff_local b) p = Some nbrs" "load nbrs ic = Some face"
      and a: "zl_store z p 0 (2 * ic) face = Some y"
      and c: "zl_store y p 0 (2 * ic + 1) 0 = Some z'"
      by (rule central_pass)
    have "zl_load z' p 0 (2 * ic) = Some face"
      using zl_store_other [OF c, of p 0 "2 * ic"] zl_store_same [OF a] by simp
    then show "?P (?slot z')" using r zl_store_same [OF c] by simp
  qed simp_all
  moreover have "?slot zls' = ?slot z1"
  proof -
    have d: "2 * ic \<noteq> 2 * vpf + j" "2 * ic + 1 \<noteq> 2 * vpf + j" if "0 \<le> j" for j
      using ic that by simp_all
    have e: "2 * ic \<noteq> 2 * vpf" "2 * ic + 1 \<noteq> 2 * vpf" using ic by presburger+
    show ?thesis
      using zl_store_other [OF st(1), of p 0 "2 * ic"] zl_store_other [OF st(2), of p 0 "2 * ic"]
        zl_store_other [OF st(3), of p 0 "2 * ic"] zl_store_other [OF st(4), of p 0 "2 * ic"]
        zl_store_other [OF st(1), of p 0 "2 * ic + 1"] zl_store_other [OF st(2), of p 0 "2 * ic + 1"]
        zl_store_other [OF st(3), of p 0 "2 * ic + 1"] zl_store_other [OF st(4), of p 0 "2 * ic + 1"]
        d [of 1] d [of 2] d [of 3] e
      by simp
  qed
  ultimately show ?thesis by auto
qed


section \<open>Zone counts and allocation\<close>

lemma set_zones_per_stencil_central:
  assumes "set_zones_per_stencil vpf zps = Some zps'"
  shows "load zps' 0 = Some (vpf + 2)"
proof -
  from assms obtain zps0 where z0: "store zps 0 (vpf + 2) = Some zps0"
    and loop: "for_each [1 .. n_stencils vpf - 1] (\<lambda>stencil z. store z stencil 4) zps0 = Some zps'"
    by (auto simp: set_zones_per_stencil_def bind_eq_Some_conv)
  show ?thesis
  proof (rule for_each_invariant [where I = "\<lambda>z. load z 0 = Some (vpf + 2)", OF loop])
    show "load zps0 0 = Some (vpf + 2)" using load_store_same [OF z0] .
  next
    fix i z t assume "i \<in> set [1 .. n_stencils vpf - 1]" "load z 0 = Some (vpf + 2)" "store z i 4 = Some t"
    then show "load t 0 = Some (vpf + 2)" using load_store_other [of z i 4 t 0] by simp
  qed
qed

lemma set_zones_per_stencil_directional:
  assumes "set_zones_per_stencil vpf zps = Some zps'" and "1 \<le> s" "s < n_stencils vpf"
  shows "load zps' s = Some 4"
proof -
  from assms obtain zps0 where
    loop: "for_each [1 .. n_stencils vpf - 1] (\<lambda>stencil z. store z stencil 4) zps0 = Some zps'"
    by (auto simp: set_zones_per_stencil_def bind_eq_Some_conv)
  show ?thesis
  proof (rule for_each_slot [where I = "\<lambda>z. True" and k = s and slot = "\<lambda>z. load z s"
        and P = "\<lambda>x. x = Some 4", OF loop])
    show "distinct [1 .. n_stencils vpf - 1]" by simp
    show "s \<in> set [1 .. n_stencils vpf - 1]" using assms(2,3) by simp
  next
    fix i z t assume "i \<noteq> s" "store z i (4::int) = Some t"
    then show "load t s = load z s" using load_store_other [of z i 4 t s] by simp
  next
    fix z t assume "store z s (4::int) = Some t"
    then show "load t s = Some 4" by (rule load_store_same)
  qed simp_all
qed

lemma allocate_pass:
  assumes "do { n \<leftarrow> load zps s; row \<leftarrow> load z p; row' \<leftarrow> store row s (Some (replicate (nat (2 * n)) junk));
                store z p row' } = Some z'"
  shows "\<exists>n. load zps s = Some n
    \<and> (\<forall>p' s'. zonelist_of z' p' s' =
          (if p' = p \<and> s' = s then Some (replicate (nat (2 * n)) junk) else zonelist_of z p' s'))"
proof -
  from assms obtain n row row' where n: "load zps s = Some n" and row: "load z p = Some row"
    and row': "store row s (Some (replicate (nat (2 * n)) junk)) = Some row'"
    and z': "store z p row' = Some z'"
    unfolding bind_eq_Some_conv by (elim exE conjE) blast
  have r: "0 \<le> p" "p < int (length z)" "row = z ! nat p" using row by (auto simp: load_Some_iff)
  have c: "0 \<le> s" "s < int (length (z ! nat p))"
    "row' = (z ! nat p)[nat s := Some (replicate (nat (2 * n)) junk)]"
    using row' r(3) by (auto simp: store_Some_iff)
  have "z' = z[nat p := (z ! nat p)[nat s := Some (replicate (nat (2 * n)) junk)]]"
    using z' c(3) by (auto simp: store_Some_iff)
  then show ?thesis using n zonelist_of_update [OF r(1,2) c(1,2)] by blast
qed

lemma allocate_zonelists_cell:
  assumes run: "allocate_zonelists junk vpf STEN b = Some zls"
    and p: "0 \<le> p" "p < n_faces_withghost b"
    and flags: "load (face_mask b) p = Some flags" "BITS_RAISED flags STEN"
    and s: "0 \<le> s" "s < n_stencils vpf"
  shows "\<exists>n. load (zones_per_stencil b) s = Some n \<and> zonelist_of zls p s = Some (replicate (nat (2 * n)) junk)"
proof -
  let ?inner = "\<lambda>pface stencil zls. do {
                 n \<leftarrow> load (zones_per_stencil b) stencil;
                 row \<leftarrow> load zls pface;
                 row' \<leftarrow> store row stencil (Some (replicate (nat (2 * n)) junk));
                 store zls pface row' }"
  let ?outer = "\<lambda>pface zls. do {
          flags \<leftarrow> load (face_mask b) pface;
          if BITS_RAISED flags STEN then for_each [0 .. n_stencils vpf - 1] (?inner pface) zls
          else Some zls }"
  let ?P = "\<lambda>x. \<exists>n. load (zones_per_stencil b) s = Some n \<and> x = Some (replicate (nat (2 * n)) junk)"
  have loop: "for_each [0 .. n_faces_withghost b - 1] ?outer
      (replicate (nat (n_faces_withghost b)) (replicate (nat (n_stencils vpf)) None)) = Some zls"
    using run by (simp add: allocate_zonelists_def)
  show ?thesis
  proof (rule for_each_slot [where I = "\<lambda>z. True" and k = p and slot = "\<lambda>z. zonelist_of z p s"
        and P = ?P, OF loop])
    show "distinct [0 .. n_faces_withghost b - 1]" by simp
    show "p \<in> set [0 .. n_faces_withghost b - 1]" using p by simp
  next
    fix i z t assume ne: "i \<noteq> p" and step: "?outer i z = Some t"
    from step obtain fl where fl: "load (face_mask b) i = Some fl"
      by (auto simp: bind_eq_Some_conv)
    show "zonelist_of t p s = zonelist_of z p s"
    proof (cases "BITS_RAISED fl STEN")
      case True
      with step fl have inner: "for_each [0 .. n_stencils vpf - 1] (?inner i) z = Some t" by simp
      show ?thesis
      proof (rule for_each_invariant [where I = "\<lambda>u. zonelist_of u p s = zonelist_of z p s", OF inner])
        fix j u v assume I: "zonelist_of u p s = zonelist_of z p s" and st: "?inner i j u = Some v"
        from allocate_pass [OF st] have "zonelist_of v p s = zonelist_of u p s" using ne by auto
        with I show "zonelist_of v p s = zonelist_of z p s" by simp
      qed simp
    next
      case False
      with step fl show ?thesis by simp
    qed
  next
    fix z t assume step: "?outer p z = Some t"
    with flags have inner: "for_each [0 .. n_stencils vpf - 1] (?inner p) z = Some t" by simp
    show "?P (zonelist_of t p s)"
    proof (rule for_each_slot [where I = "\<lambda>z. True" and k = s and slot = "\<lambda>z. zonelist_of z p s"
          and P = ?P, OF inner])
      show "distinct [0 .. n_stencils vpf - 1]" by simp
      show "s \<in> set [0 .. n_stencils vpf - 1]" using s by simp
    next
      fix j u v assume ne: "j \<noteq> s" and st: "?inner p j u = Some v"
      from allocate_pass [OF st] show "zonelist_of v p s = zonelist_of u p s" using ne by auto
    next
      fix u v assume st: "?inner p s u = Some v"
      from allocate_pass [OF st] show "?P (zonelist_of v p s)" by auto
    qed simp_all
  qed simp_all
qed

section \<open>The zone lists of one face\<close>

lemma BuildAllStencils_face_split:
  assumes "BuildAllStencils_face vpf sf STEN b p zls = Some zls'"
    and "load (face_mask b) p = Some flags" and "BITS_RAISED flags STEN"
  obtains z1 where "central_stencil vpf p b zls = Some z1"
    "for_each [1 .. vpf] (\<lambda>stencil. directional_stencil vpf sf p stencil b) z1 = Some zls'"
  using assms by (auto simp: BuildAllStencils_face_def bind_eq_Some_conv)

lemma BuildAllStencils_face_cases:
  assumes "BuildAllStencils_face vpf sf STEN b p zls = Some zls'"
  obtains (skip) "zls' = zls"
  | (build) z1 where "central_stencil vpf p b zls = Some z1"
      "for_each [1 .. vpf] (\<lambda>stencil. directional_stencil vpf sf p stencil b) z1 = Some zls'"
  using assms by (auto simp: BuildAllStencils_face_def bind_eq_Some_conv split: if_splits)

lemma BuildAllStencils_face_other:
  assumes "BuildAllStencils_face vpf sf STEN b p zls = Some zls'" and "p' \<noteq> p"
  shows "zl_load zls' p' s' k' = zl_load zls p' s' k'"
  using assms(1)
proof (cases rule: BuildAllStencils_face_cases)
  case skip
  then show ?thesis by simp
next
  case (build z1)
  have "zl_load zls' p' s' k' = zl_load z1 p' s' k'"
  proof (rule for_each_invariant [where I = "\<lambda>z. zl_load z p' s' k' = zl_load z1 p' s' k'", OF build(2)])
    fix i z t assume "zl_load z p' s' k' = zl_load z1 p' s' k'" "directional_stencil vpf sf p i b z = Some t"
    then show "zl_load t p' s' k' = zl_load z1 p' s' k'"
      using directional_stencil_other [of vpf sf p i b z t p' s' k'] assms(2) by simp
  qed simp
  then show ?thesis using central_stencil_other [OF build(1), of p' s' k'] assms(2) by simp
qed

lemma BuildAllStencils_face_length:
  assumes "BuildAllStencils_face vpf sf STEN b p zls = Some zls'"
  shows "map_option length (zonelist_of zls' p' s') = map_option length (zonelist_of zls p' s')"
  using assms(1)
proof (cases rule: BuildAllStencils_face_cases)
  case skip
  then show ?thesis by simp
next
  case (build z1)
  let ?L = "\<lambda>z. map_option length (zonelist_of z p' s')"
  have "?L zls' = ?L z1"
  proof (rule for_each_invariant [where I = "\<lambda>z. ?L z = ?L z1", OF build(2)])
    fix i z t assume "?L z = ?L z1" "directional_stencil vpf sf p i b z = Some t"
    then show "?L t = ?L z1" using directional_stencil_length [of vpf sf p i b z t p' s'] by simp
  qed simp
  then show ?thesis using central_stencil_length [OF build(1), of p' s'] by simp
qed

lemma BuildAllStencils_face_central:
  assumes run: "BuildAllStencils_face vpf sf STEN b p zls = Some zls'"
    and flags: "load (face_mask b) p = Some flags" "BITS_RAISED flags STEN" and vpf: "0 < vpf"
  shows "\<exists>z1. central_stencil vpf p b zls = Some z1 \<and> (\<forall>k. zl_load zls' p 0 k = zl_load z1 p 0 k)"
proof -
  from run flags obtain z1 where c: "central_stencil vpf p b zls = Some z1"
    and d: "for_each [1 .. vpf] (\<lambda>stencil. directional_stencil vpf sf p stencil b) z1 = Some zls'"
    by (rule BuildAllStencils_face_split)
  have "zl_load zls' p 0 k = zl_load z1 p 0 k" for k
  proof (rule for_each_invariant [where I = "\<lambda>z. zl_load z p 0 k = zl_load z1 p 0 k", OF d])
    fix i z t
    assume i: "i \<in> set [1 .. vpf]" and I: "zl_load z p 0 k = zl_load z1 p 0 k"
      and st: "directional_stencil vpf sf p i b z = Some t"
    have "0 \<noteq> i \<and> 0 \<noteq> i + vpf" using i vpf by simp
    then show "zl_load t p 0 k = zl_load z1 p 0 k"
      using directional_stencil_other [OF st, of p 0 k] I by simp
  qed simp
  with c show ?thesis by blast
qed

lemma BuildAllStencils_face_directional:
  assumes run: "BuildAllStencils_face vpf sf STEN b p zls = Some zls'"
    and flags: "load (face_mask b) p = Some flags" "BITS_RAISED flags STEN"
    and s: "1 \<le> s" "s \<le> vpf"
  shows "\<exists>nbrs nface nnbrs flank1 flank2.
      load (ff_local b) p = Some nbrs \<and> load nbrs (s - 1) = Some nface
    \<and> load (ff_local b) nface = Some nnbrs
    \<and> load nnbrs ((InList vpf nnbrs p + 1) smod vpf) = Some flank1
    \<and> load nnbrs ((InList vpf nnbrs p + 4 - sf) smod vpf) = Some flank2
    \<and> map (zl_load zls' p s) [0, 1, 2, 3, 4, 5, 6, 7]
        = map Some [nface, 0, flank1, 0, flank2, 0, nface, - 1]
    \<and> map (zl_load zls' p (s + vpf)) [0, 1, 2, 3, 4, 5, 6, 7]
        = map Some [nface, 0, flank1, 0, flank2, 0, nface, 1]"
    (is "?P (\<lambda>k. zl_load zls' p s k, \<lambda>k. zl_load zls' p (s + vpf) k)")
proof -
  from run flags obtain z1 where
    d: "for_each [1 .. vpf] (\<lambda>stencil. directional_stencil vpf sf p stencil b) z1 = Some zls'"
    by (rule BuildAllStencils_face_split)
  have vpf: "vpf \<noteq> 0" using s by simp
  let ?slot = "\<lambda>z. (\<lambda>k. zl_load z p s k, \<lambda>k. zl_load z p (s + vpf) k)"
  let ?Q = "\<lambda>sl. \<exists>nbrs nface nnbrs flank1 flank2.
      load (ff_local b) p = Some nbrs \<and> load nbrs (s - 1) = Some nface
    \<and> load (ff_local b) nface = Some nnbrs
    \<and> load nnbrs ((InList vpf nnbrs p + 1) smod vpf) = Some flank1
    \<and> load nnbrs ((InList vpf nnbrs p + 4 - sf) smod vpf) = Some flank2
    \<and> map (fst sl) [0, 1, 2, 3, 4, 5, 6, 7] = map Some [nface, 0, flank1, 0, flank2, 0, nface, - 1]
    \<and> map (snd sl) [0, 1, 2, 3, 4, 5, 6, 7] = map Some [nface, 0, flank1, 0, flank2, 0, nface, 1]"
  have "?Q (?slot zls')"
  proof (rule for_each_slot [where I = "\<lambda>z. True" and k = s and slot = ?slot and P = ?Q, OF d])
    show "distinct [1 .. vpf]" by simp
    show "s \<in> set [1 .. vpf]" using s by simp
  next
    fix i z t
    assume i: "i \<in> set [1 .. vpf]" "i \<noteq> s" and st: "directional_stencil vpf sf p i b z = Some t"
    have "s \<noteq> i \<and> s \<noteq> i + vpf" "s + vpf \<noteq> i \<and> s + vpf \<noteq> i + vpf" using i s by auto
    then have "zl_load t p s k = zl_load z p s k" "zl_load t p (s + vpf) k = zl_load z p (s + vpf) k" for k
      using directional_stencil_other [OF st, of p s k]
        directional_stencil_other [OF st, of p "s + vpf" k] by simp_all
    then show "?slot t = ?slot z" by simp
  next
    fix z t assume st: "directional_stencil vpf sf p s b z = Some t"
    from directional_stencil_cells [OF st vpf] show "?Q (?slot t)" by simp
  qed simp_all
  then show ?thesis by simp
qed

section \<open>The zone lists of the block\<close>

lemma BuildAllStencils_split:
  assumes "BuildAllStencils junk vpf sf STEN b = Some b'"
  obtains zps zls0 zls where "set_zones_per_stencil vpf (zones_per_stencil b) = Some zps"
    "allocate_zonelists junk vpf STEN (b\<lparr>zones_per_stencil := zps\<rparr>) = Some zls0"
    "for_each [0 .. n_faces_withghost b - 1] (BuildAllStencils_face vpf sf STEN b) zls0 = Some zls"
    "zones_per_stencil b' = zps" "stencil_zonelist b' = zls"
proof -
  from assms obtain zps zls0 zls where a: "set_zones_per_stencil vpf (zones_per_stencil b) = Some zps"
    "allocate_zonelists junk vpf STEN (b\<lparr>zones_per_stencil := zps\<rparr>) = Some zls0"
    "for_each [0 .. n_faces_withghost b - 1] (BuildAllStencils_face vpf sf STEN b) zls0 = Some zls"
    and b': "b' = b\<lparr>zones_per_stencil := zps, stencil_zonelist := zls\<rparr>"
    unfolding BuildAllStencils_def bind_eq_Some_conv by auto
  have "zones_per_stencil b' = zps" "stencil_zonelist b' = zls" unfolding b' by simp_all
  with a that show thesis by blast
qed

lemma BuildAllStencils_length:
  assumes run: "BuildAllStencils junk vpf sf STEN b = Some b'"
    and p: "0 \<le> p" "p < n_faces_withghost b"
    and flags: "load (face_mask b) p = Some flags" "BITS_RAISED flags STEN"
    and s: "0 \<le> s" "s < n_stencils vpf"
  shows "\<exists>n. load (zones_per_stencil b') s = Some n
    \<and> map_option length (zonelist_of (stencil_zonelist b') p s) = Some (nat (2 * n))"
proof -
  from run obtain zps zls0 zls where
    alloc: "allocate_zonelists junk vpf STEN (b\<lparr>zones_per_stencil := zps\<rparr>) = Some zls0"
    and fill: "for_each [0 .. n_faces_withghost b - 1] (BuildAllStencils_face vpf sf STEN b) zls0 = Some zls"
    and b': "zones_per_stencil b' = zps" "stencil_zonelist b' = zls"
    by (rule BuildAllStencils_split)
  have "\<exists>n. load (zones_per_stencil (b\<lparr>zones_per_stencil := zps\<rparr>)) s = Some n
      \<and> zonelist_of zls0 p s = Some (replicate (nat (2 * n)) junk)"
    by (rule allocate_zonelists_cell [OF alloc]) (use p flags s in simp_all)
  then obtain n where n: "load zps s = Some n" "zonelist_of zls0 p s = Some (replicate (nat (2 * n)) junk)"
    by auto
  let ?L = "\<lambda>z. map_option length (zonelist_of z p s)"
  have "?L zls = ?L zls0"
  proof (rule for_each_invariant [where I = "\<lambda>z. ?L z = ?L zls0", OF fill])
    fix i z t assume "?L z = ?L zls0" "BuildAllStencils_face vpf sf STEN b i z = Some t"
    then show "?L t = ?L zls0" using BuildAllStencils_face_length [of vpf sf STEN b i z t p s] by simp
  qed simp
  then show ?thesis using n b' by simp
qed

lemma BuildAllStencils_own_face:
  assumes run: "BuildAllStencils junk vpf sf STEN b = Some b'"
    and p: "0 \<le> p" "p < n_faces_withghost b"
  shows "\<exists>z t. BuildAllStencils_face vpf sf STEN b p z = Some t
    \<and> (\<forall>s k. zl_load (stencil_zonelist b') p s k = zl_load t p s k)"
proof -
  from run obtain zps zls0 zls where
    fill: "for_each [0 .. n_faces_withghost b - 1] (BuildAllStencils_face vpf sf STEN b) zls0 = Some zls"
    and b': "stencil_zonelist b' = zls"
    by (rule BuildAllStencils_split)
  let ?slot = "\<lambda>z. (\<lambda>s k. zl_load z p s k)"
  let ?P = "\<lambda>f. \<exists>z t. BuildAllStencils_face vpf sf STEN b p z = Some t \<and> f = ?slot t"
  have "?P (?slot zls)"
  proof (rule for_each_slot [where I = "\<lambda>z. True" and k = p and slot = ?slot and P = ?P, OF fill])
    show "distinct [0 .. n_faces_withghost b - 1]" by simp
    show "p \<in> set [0 .. n_faces_withghost b - 1]" using p by simp
  next
    fix i z t assume "i \<noteq> p" "BuildAllStencils_face vpf sf STEN b i z = Some t"
    then show "?slot t = ?slot z" using BuildAllStencils_face_other [of vpf sf STEN b i z t p] by auto
  next
    fix z t assume "BuildAllStencils_face vpf sf STEN b p z = Some t"
    then show "?P (?slot t)" by blast
  qed simp_all
  then obtain z t where "BuildAllStencils_face vpf sf STEN b p z = Some t" "?slot zls = ?slot t" by blast
  then show ?thesis unfolding b' by (intro exI [of _ z] exI [of _ t]) (simp add: fun_eq_iff)
qed

section \<open>BuildAllStencils\<close>

lemma InList_from_missing: "val \<notin> set xs \<Longrightarrow> InList_from i xs val = - 1"
  by (induction xs arbitrary: i) auto

lemma InList_from_found:
  "val \<in> set xs \<Longrightarrow>
     \<exists>q < length xs. InList_from i xs val = i + int q \<and> xs ! q = val \<and> (\<forall>j < q. xs ! j \<noteq> val)"
proof (induction xs arbitrary: i)
  case Nil
  then show ?case by simp
next
  case (Cons x xs)
  show ?case
  proof (cases "x = val")
    case True
    then show ?thesis by (intro exI [of _ 0]) simp
  next
    case False
    with Cons.prems have "val \<in> set xs" by simp
    from Cons.IH [OF this, of "i + 1"] obtain q where
      q: "q < length xs" "InList_from (i + 1) xs val = i + 1 + int q" "xs ! q = val" "\<forall>j < q. xs ! j \<noteq> val"
      by blast
    show ?thesis
    proof (intro exI [of _ "Suc q"] conjI allI impI)
      fix j assume "j < Suc q"
      then show "(x # xs) ! j \<noteq> val" using False q(4) by (cases j) auto
    qed (use False q in auto)
  qed
qed

lemma InList_position:
  assumes "val \<in> set (take (nat n) xs)"
  shows "0 \<le> InList n xs val \<and> InList n xs val < n \<and> load xs (InList n xs val) = Some val
    \<and> (\<forall>j. 0 \<le> j \<and> j < InList n xs val \<longrightarrow> load xs j \<noteq> Some val)"
proof -
  from InList_from_found [OF assms, of 0] obtain q where
    q: "q < length (take (nat n) xs)" "InList n xs val = int q" "take (nat n) xs ! q = val"
    "\<forall>j < q. take (nat n) xs ! j \<noteq> val"
    by (auto simp: InList_def)
  have lt: "q < nat n" "q < length xs" using q(1) by simp_all
  have "xs ! q = val" using q(3) lt by simp
  moreover have "xs ! nat j \<noteq> val" if "0 \<le> j" "j < int q" for j
  proof -
    have "nat j < q" using that by simp
    with q(4) lt show ?thesis by auto
  qed
  ultimately show ?thesis using q(2) lt by (auto simp: load_def)
qed

lemma InList_absent: "val \<notin> set (take (nat n) xs) \<Longrightarrow> InList n xs val = - 1"
  by (simp add: InList_def InList_from_missing)

lemma zl_load_zonelist:
  "zonelist_of z p s = Some zl \<Longrightarrow> zl_load z p s k = load zl k"
  by (simp add: zl_load_def)

lemma zonelist_of_length:
  assumes "map_option length (zonelist_of z p s) = Some n"
  obtains zl where "zonelist_of z p s = Some zl" "length zl = n"
  using assms by auto

lemma eight_cells:
  assumes len: "map_option length (zonelist_of z p s) = Some 8"
    and cells: "map (zl_load z p s) [0, 1, 2, 3, 4, 5, 6, 7] = map Some [a0, a1, a2, a3, a4, a5, a6, a7]"
  shows "zonelist_of z p s = Some [a0, a1, a2, a3, a4, a5, a6, a7]"
proof -
  from len obtain zl where zl: "zonelist_of z p s = Some zl" "length zl = 8"
    by (rule zonelist_of_length)
  from zl(2) obtain b0 b1 b2 b3 b4 b5 b6 b7 where l: "zl = [b0, b1, b2, b3, b4, b5, b6, b7]"
    by (auto simp: eval_nat_numeral length_Suc_conv)
  from cells have "map (load zl) [0, 1, 2, 3, 4, 5, 6, 7] = map Some [a0, a1, a2, a3, a4, a5, a6, a7]"
    by (simp add: zl_load_zonelist [OF zl(1)])
  then have "zl = [a0, a1, a2, a3, a4, a5, a6, a7]"
    unfolding l by (simp add: load_def)
  with zl(1) show ?thesis by simp
qed

lemma BuildAllStencils_frame:
  assumes "BuildAllStencils junk vpf sf STEN b = Some b'"
  shows "ff_local b' = ff_local b \<and> face_mask b' = face_mask b \<and> n_faces_withghost b' = n_faces_withghost b"
  using assms by (auto simp: BuildAllStencils_def bind_eq_Some_conv)

lemma BuildAllStencils_directional:
  assumes run: "BuildAllStencils junk vpf sf STEN b = Some b'"
    and p: "0 \<le> p" "p < n_faces_withghost b"
    and flags: "load (face_mask b) p = Some flags" "BITS_RAISED flags STEN"
    and s: "1 \<le> s" "s \<le> vpf"
  shows "\<exists>nbrs nface nnbrs flank1 flank2.
      load (ff_local b) p = Some nbrs \<and> load nbrs (s - 1) = Some nface
    \<and> load (ff_local b) nface = Some nnbrs
    \<and> load nnbrs ((InList vpf nnbrs p + 1) smod vpf) = Some flank1
    \<and> load nnbrs ((InList vpf nnbrs p + 4 - sf) smod vpf) = Some flank2
    \<and> zonelist_of (stencil_zonelist b') p s = Some [nface, 0, flank1, 0, flank2, 0, nface, - 1]
    \<and> zonelist_of (stencil_zonelist b') p (s + vpf) = Some [nface, 0, flank1, 0, flank2, 0, nface, 1]"
proof -
  from BuildAllStencils_own_face [OF run p] obtain z t where
    face: "BuildAllStencils_face vpf sf STEN b p z = Some t"
    and own: "\<And>s k. zl_load (stencil_zonelist b') p s k = zl_load t p s k"
    by blast
  from BuildAllStencils_face_directional [OF face flags s] obtain nbrs nface nnbrs flank1 flank2 where
    rd: "load (ff_local b) p = Some nbrs" "load nbrs (s - 1) = Some nface"
    "load (ff_local b) nface = Some nnbrs"
    "load nnbrs ((InList vpf nnbrs p + 1) smod vpf) = Some flank1"
    "load nnbrs ((InList vpf nnbrs p + 4 - sf) smod vpf) = Some flank2"
    and cells: "map (zl_load t p s) [0, 1, 2, 3, 4, 5, 6, 7]
        = map Some [nface, 0, flank1, 0, flank2, 0, nface, - 1]"
    "map (zl_load t p (s + vpf)) [0, 1, 2, 3, 4, 5, 6, 7]
        = map Some [nface, 0, flank1, 0, flank2, 0, nface, 1]"
    by (elim exE conjE)
  have zps: "zones_per_stencil b' ! 0 = zones_per_stencil b' ! 0" by simp
  from run obtain zps where z: "set_zones_per_stencil vpf (zones_per_stencil b) = Some zps"
    "zones_per_stencil b' = zps"
    by (rule BuildAllStencils_split)
  have four: "load (zones_per_stencil b') s = Some 4" "load (zones_per_stencil b') (s + vpf) = Some 4"
    using set_zones_per_stencil_directional [OF z(1), of s]
      set_zones_per_stencil_directional [OF z(1), of "s + vpf"] z(2) s
    by (simp_all add: n_stencils_def)
  have "map_option length (zonelist_of (stencil_zonelist b') p s) = Some 8"
    using BuildAllStencils_length [OF run p flags, of s] four(1) s by (auto simp: n_stencils_def)
  moreover have "map_option length (zonelist_of (stencil_zonelist b') p (s + vpf)) = Some 8"
    using BuildAllStencils_length [OF run p flags, of "s + vpf"] four(2) s by (auto simp: n_stencils_def)
  ultimately have lists:
    "zonelist_of (stencil_zonelist b') p s = Some [nface, 0, flank1, 0, flank2, 0, nface, - 1]"
    "zonelist_of (stencil_zonelist b') p (s + vpf) = Some [nface, 0, flank1, 0, flank2, 0, nface, 1]"
    using cells by (simp_all add: eight_cells own)
  show ?thesis
    by (rule exI [of _ nbrs], rule exI [of _ nface], rule exI [of _ nnbrs], rule exI [of _ flank1],
        rule exI [of _ flank2], intro conjI) (fact rd lists)+
qed

lemma tri_stencils:
  "BuildAllStencils 0 3 2 2 tri_marked = Some tri_stenciled"
  by (simp add: upto.simps BuildAllStencils_def BuildAllStencils_face_def set_zones_per_stencil_def
      allocate_zonelists_def central_stencil_def directional_stencil_def zl_store_pair_def zl_store_def
      n_stencils_def InList_def load_def store_def BITS_RAISED_def tri_marked_def tri_block_def
      tri_stenciled_def signed_modulo_int_def eval_nat_numeral)


lemma smod_nonneg: "0 \<le> a \<Longrightarrow> 0 < b \<Longrightarrow> a smod b = a mod (b::int)"
  by (cases "a = 0") (simp_all add: signed_modulo_int_def)

lemma BuildAllStencils_central:
  assumes run: "BuildAllStencils junk vpf sf STEN b = Some b'"
    and p: "0 \<le> p" "p < n_faces_withghost b"
    and flags: "load (face_mask b) p = Some flags" "BITS_RAISED flags STEN"
    and vpf: "0 < vpf"
  shows "\<exists>t z1. central_stencil vpf p b t = Some z1
    \<and> (\<forall>k. zl_load (stencil_zonelist b') p 0 k = zl_load z1 p 0 k)"
proof -
  from BuildAllStencils_own_face [OF run p] obtain z t where
    face: "BuildAllStencils_face vpf sf STEN b p z = Some t"
    and own: "\<And>s k. zl_load (stencil_zonelist b') p s k = zl_load t p s k"
    by blast
  from BuildAllStencils_face_central [OF face flags vpf] obtain z1 where
    c: "central_stencil vpf p b z = Some z1" "\<And>k. zl_load t p 0 k = zl_load z1 p 0 k"
    by blast
  have "\<forall>k. zl_load (stencil_zonelist b') p 0 k = zl_load z1 p 0 k" using own c(2) by simp
  with c(1) show ?thesis by blast
qed

text \<open>
  C5. For every face whose flag \<open>GEOELM_STEN\<close> is raised, the central stencil has
  \<open>verts_per_face + 2\<close> zones: the neighbours of the face across its sides, each on the
  plane 0, and then the face itself on the plane \<open>-1\<close> and on the plane \<open>+1\<close>.
\<close>

theorem central_stencil_zones:
  assumes run: "BuildAllStencils junk vpf sf STEN b = Some b'"
    and p: "0 \<le> p" "p < n_faces_withghost b"
    and flags: "load (face_mask b) p = Some flags" "BITS_RAISED flags STEN"
    and vpf: "0 < vpf"
  shows "load (zones_per_stencil b') 0 = Some (vpf + 2)
    \<and> (\<exists>nbrs zl. load (ff_local b) p = Some nbrs
        \<and> zonelist_of (stencil_zonelist b') p 0 = Some zl \<and> int (length zl) = 2 * (vpf + 2)
        \<and> (\<forall>ic. 0 \<le> ic \<and> ic < vpf \<longrightarrow>
              (\<exists>face. load nbrs ic = Some face \<and> load zl (2 * ic) = Some face)
              \<and> load zl (2 * ic + 1) = Some 0)
        \<and> load zl (2 * vpf) = Some p \<and> load zl (2 * vpf + 1) = Some (- 1)
        \<and> load zl (2 * vpf + 2) = Some p \<and> load zl (2 * vpf + 3) = Some 1)"
proof -
  from run obtain zps where z: "set_zones_per_stencil vpf (zones_per_stencil b) = Some zps"
    "zones_per_stencil b' = zps"
    by (rule BuildAllStencils_split)
  have count: "load (zones_per_stencil b') 0 = Some (vpf + 2)"
    using set_zones_per_stencil_central [OF z(1)] z(2) by simp
  have "map_option length (zonelist_of (stencil_zonelist b') p 0) = Some (nat (2 * (vpf + 2)))"
    using BuildAllStencils_length [OF run p flags, of 0] count vpf by (auto simp: n_stencils_def)
  then obtain zl where zl: "zonelist_of (stencil_zonelist b') p 0 = Some zl"
    "length zl = nat (2 * (vpf + 2))"
    by (rule zonelist_of_length)
  have len: "int (length zl) = 2 * (vpf + 2)" using zl(2) vpf by simp
  note rd = zl_load_zonelist [OF zl(1)]
  from BuildAllStencils_central [OF run p flags vpf] obtain t z1 where
    c: "central_stencil vpf p b t = Some z1"
    and own: "\<And>k. zl_load (stencil_zonelist b') p 0 k = zl_load z1 p 0 k"
    by blast
  have cell: "load zl k = zl_load z1 p 0 k" for k using own [of k] rd [of k] by simp
  from central_stencil_neighbours [OF c, of 0] vpf obtain nbrs where nbrs: "load (ff_local b) p = Some nbrs"
    by auto
  have nb: "(\<exists>face. load nbrs ic = Some face \<and> load zl (2 * ic) = Some face)
      \<and> load zl (2 * ic + 1) = Some 0" if "0 \<le> ic \<and> ic < vpf" for ic
    using central_stencil_neighbours [OF c, of ic] that nbrs by (auto simp: cell)
  have tail: "load zl (2 * vpf) = Some p \<and> load zl (2 * vpf + 1) = Some (- 1)
        \<and> load zl (2 * vpf + 2) = Some p \<and> load zl (2 * vpf + 3) = Some 1"
    using central_stencil_tail [OF c] by (simp add: cell)
  show ?thesis
  proof (intro conjI)
    show "\<exists>nbrs zl. load (ff_local b) p = Some nbrs
        \<and> zonelist_of (stencil_zonelist b') p 0 = Some zl \<and> int (length zl) = 2 * (vpf + 2)
        \<and> (\<forall>ic. 0 \<le> ic \<and> ic < vpf \<longrightarrow>
              (\<exists>face. load nbrs ic = Some face \<and> load zl (2 * ic) = Some face)
              \<and> load zl (2 * ic + 1) = Some 0)
        \<and> load zl (2 * vpf) = Some p \<and> load zl (2 * vpf + 1) = Some (- 1)
        \<and> load zl (2 * vpf + 2) = Some p \<and> load zl (2 * vpf + 3) = Some 1"
      by (rule exI [of _ nbrs], rule exI [of _ zl]) (use nbrs zl(1) len nb tail in blast)
  qed (fact count)
qed

theorem central_stencil_zones_witness:
  "BuildAllStencils 0 3 2 2 tri_marked = Some tri_stenciled
   \<and> load (zones_per_stencil tri_stenciled) 0 = Some 5
   \<and> load (ff_local tri_marked) 0 = Some [1, 2, 3]
   \<and> zonelist_of (stencil_zonelist tri_stenciled) 0 0 = Some [1, 0, 2, 0, 3, 0, 0, - 1, 0, 1]"
proof -
  have h: "(0::int) \<le> 0" "0 < n_faces_withghost tri_marked"
    "load (face_mask tri_marked) 0 = Some 2" "BITS_RAISED (2 :: 16 word) 2" "(0::int) < 3"
    by (simp_all add: tri_marked_def tri_block_def load_def BITS_RAISED_def)
  from central_stencil_zones [OF tri_stencils h] have "load (zones_per_stencil tri_stenciled) 0 = Some (3 + 2)"
    by blast
  then show ?thesis
    using tri_stencils
    by (simp add: tri_stenciled_def tri_marked_def tri_block_def zonelist_of_def load_def)
qed

text \<open>
  C1, as stated: the last zone of both stencils of a directional pair is the principal
  face. On the example block the last zone of the stencils 1 and 4 of face 0 is face 1,
  the neighbour across the first side.
\<close>

theorem last_zone_not_principal:
  "BuildAllStencils 0 3 2 2 tri_marked = Some tri_stenciled
   \<and> \<not> principal_last_zone 3 (stencil_zonelist tri_stenciled) 0 1"
  using tri_stencils
  by (simp add: principal_last_zone_def tri_stenciled_def tri_marked_def tri_block_def zonelist_of_def load_def)

text \<open>
  C1, amended. For every face whose flag \<open>GEOELM_STEN\<close> is raised and every side \<open>s\<close>, the
  stencils \<open>s\<close> and \<open>s + verts_per_face\<close> have four zones each and the same first three
  zones; the last zone of both is the neighbour \<open>N\<close> across the side, on the plane \<open>-1\<close>
  in the stencil \<open>s\<close> and on the plane \<open>+1\<close> in the stencil \<open>s + verts_per_face\<close>.
\<close>

theorem directional_pair_zones:
  assumes run: "BuildAllStencils junk vpf sf STEN b = Some b'"
    and p: "0 \<le> p" "p < n_faces_withghost b"
    and flags: "load (face_mask b) p = Some flags" "BITS_RAISED flags STEN"
    and s: "1 \<le> s" "s \<le> vpf"
  shows "load (zones_per_stencil b') s = Some 4 \<and> load (zones_per_stencil b') (s + vpf) = Some 4
    \<and> (\<exists>nbrs nface flank1 flank2. load (ff_local b) p = Some nbrs \<and> load nbrs (s - 1) = Some nface
        \<and> zonelist_of (stencil_zonelist b') p s = Some [nface, 0, flank1, 0, flank2, 0, nface, - 1]
        \<and> zonelist_of (stencil_zonelist b') p (s + vpf) = Some [nface, 0, flank1, 0, flank2, 0, nface, 1])"
proof -
  from run obtain zps where z: "set_zones_per_stencil vpf (zones_per_stencil b) = Some zps"
    "zones_per_stencil b' = zps"
    by (rule BuildAllStencils_split)
  have four: "load (zones_per_stencil b') s = Some 4" "load (zones_per_stencil b') (s + vpf) = Some 4"
    using set_zones_per_stencil_directional [OF z(1), of s]
      set_zones_per_stencil_directional [OF z(1), of "s + vpf"] z(2) s
    by (simp_all add: n_stencils_def)
  from BuildAllStencils_directional [OF run p flags s] obtain nbrs nface flank1 flank2 where
    d: "load (ff_local b) p = Some nbrs" "load nbrs (s - 1) = Some nface"
    "zonelist_of (stencil_zonelist b') p s = Some [nface, 0, flank1, 0, flank2, 0, nface, - 1]"
    "zonelist_of (stencil_zonelist b') p (s + vpf) = Some [nface, 0, flank1, 0, flank2, 0, nface, 1]"
    by (elim exE conjE)
  have "\<exists>nbrs nface flank1 flank2. load (ff_local b) p = Some nbrs \<and> load nbrs (s - 1) = Some nface
        \<and> zonelist_of (stencil_zonelist b') p s = Some [nface, 0, flank1, 0, flank2, 0, nface, - 1]
        \<and> zonelist_of (stencil_zonelist b') p (s + vpf) = Some [nface, 0, flank1, 0, flank2, 0, nface, 1]"
    by (rule exI [of _ nbrs], rule exI [of _ nface], rule exI [of _ flank1], rule exI [of _ flank2],
        intro conjI) (fact d)+
  with four show ?thesis by (intro conjI)
qed

theorem directional_pair_zones_witness:
  "BuildAllStencils 0 3 2 2 tri_marked = Some tri_stenciled
   \<and> load (zones_per_stencil tri_stenciled) 1 = Some 4 \<and> load (zones_per_stencil tri_stenciled) 4 = Some 4
   \<and> zonelist_of (stencil_zonelist tri_stenciled) 0 1 = Some [1, 0, 3, 0, 2, 0, 1, - 1]
   \<and> zonelist_of (stencil_zonelist tri_stenciled) 0 4 = Some [1, 0, 3, 0, 2, 0, 1, 1]"
proof -
  have h: "(0::int) \<le> 0" "0 < n_faces_withghost tri_marked"
    "load (face_mask tri_marked) 0 = Some 2" "BITS_RAISED (2 :: 16 word) 2" "(1::int) \<le> 1" "(1::int) \<le> 3"
    by (simp_all add: tri_marked_def tri_block_def load_def BITS_RAISED_def)
  from directional_pair_zones [OF tri_stencils h]
  have "load (zones_per_stencil tri_stenciled) 1 = Some 4" "load (zones_per_stencil tri_stenciled) (1 + 3) = Some 4"
    by blast+
  then show ?thesis
    using tri_stencils
    by (simp add: tri_stenciled_def tri_marked_def tri_block_def zonelist_of_def load_def)
qed

text \<open>
  C3, as stated: the second flanking zone is the neighbour of \<open>N\<close> at the offset
  \<open>(p + verts_per_face - (verts_per_face == 4 ? 1 : 0)) mod verts_per_face\<close>. On the example
  block of triangles, with \<open>square_fill = 2\<close>, face 0 is at the position 1 among the
  neighbours \<open>2, 0, 3\<close> of face 1; the stated offset is 1, which is face 0 itself, and the
  second flanking zone of the stencil is face 2, at the offset 0.
\<close>

theorem flank_offset_not_as_stated:
  "BuildAllStencils 0 3 2 2 tri_marked = Some tri_stenciled
   \<and> \<not> flanks_as_stated 3 tri_marked (stencil_zonelist tri_stenciled) 0 1"
  using tri_stencils
  by (simp add: flanks_as_stated_def tri_stenciled_def tri_marked_def tri_block_def zonelist_of_def
      zl_load_def load_def InList_def)

text \<open>
  C3, amended. For every face whose flag \<open>GEOELM_STEN\<close> is raised and every side \<open>s\<close>, the two
  flanking zones of both stencils of the side are the neighbours of \<open>N\<close> at the offsets
  \<open>(p + 1) % verts_per_face\<close> and \<open>(p + 4 - square_fill) % verts_per_face\<close>, where \<open>p\<close> is what
  \<open>InList\<close> returns: the first position of the principal face among the neighbours of \<open>N\<close>
  when it is there, and then the remainders are those of \<open>mod\<close> as long as
  \<open>square_fill\<close> is at most 4.
\<close>

theorem flanking_zone_offsets:
  assumes run: "BuildAllStencils junk vpf sf STEN b = Some b'"
    and p: "0 \<le> p" "p < n_faces_withghost b"
    and flags: "load (face_mask b) p = Some flags" "BITS_RAISED flags STEN"
    and s: "1 \<le> s" "s \<le> vpf"
  shows "\<exists>nbrs nface nnbrs q. load (ff_local b) p = Some nbrs \<and> load nbrs (s - 1) = Some nface
    \<and> load (ff_local b) nface = Some nnbrs \<and> q = InList vpf nnbrs p
    \<and> zl_load (stencil_zonelist b') p s 2 = load nnbrs ((q + 1) smod vpf)
    \<and> zl_load (stencil_zonelist b') p s 4 = load nnbrs ((q + 4 - sf) smod vpf)
    \<and> zl_load (stencil_zonelist b') p (s + vpf) 2 = load nnbrs ((q + 1) smod vpf)
    \<and> zl_load (stencil_zonelist b') p (s + vpf) 4 = load nnbrs ((q + 4 - sf) smod vpf)
    \<and> (p \<in> set (take (nat vpf) nnbrs) \<longrightarrow>
          0 \<le> q \<and> q < vpf \<and> load nnbrs q = Some p \<and> (\<forall>j. 0 \<le> j \<and> j < q \<longrightarrow> load nnbrs j \<noteq> Some p)
          \<and> (q + 1) smod vpf = (q + 1) mod vpf
          \<and> (sf \<le> 4 \<longrightarrow> (q + 4 - sf) smod vpf = (q + 4 - sf) mod vpf))"
proof -
  from BuildAllStencils_directional [OF run p flags s] obtain nbrs nface nnbrs flank1 flank2 where
    rd: "load (ff_local b) p = Some nbrs" "load nbrs (s - 1) = Some nface"
    "load (ff_local b) nface = Some nnbrs"
    and fl: "load nnbrs ((InList vpf nnbrs p + 1) smod vpf) = Some flank1"
    "load nnbrs ((InList vpf nnbrs p + 4 - sf) smod vpf) = Some flank2"
    and zl: "zonelist_of (stencil_zonelist b') p s = Some [nface, 0, flank1, 0, flank2, 0, nface, - 1]"
    "zonelist_of (stencil_zonelist b') p (s + vpf) = Some [nface, 0, flank1, 0, flank2, 0, nface, 1]"
    by (elim exE conjE)
  let ?q = "InList vpf nnbrs p"
  have cells: "zl_load (stencil_zonelist b') p s 2 = Some flank1"
    "zl_load (stencil_zonelist b') p s 4 = Some flank2"
    "zl_load (stencil_zonelist b') p (s + vpf) 2 = Some flank1"
    "zl_load (stencil_zonelist b') p (s + vpf) 4 = Some flank2"
    by (simp_all add: zl_load_zonelist [OF zl(1)] zl_load_zonelist [OF zl(2)] load_def)
  have pos: "0 \<le> ?q \<and> ?q < vpf \<and> load nnbrs ?q = Some p \<and> (\<forall>j. 0 \<le> j \<and> j < ?q \<longrightarrow> load nnbrs j \<noteq> Some p)
          \<and> (?q + 1) smod vpf = (?q + 1) mod vpf
          \<and> (sf \<le> 4 \<longrightarrow> (?q + 4 - sf) smod vpf = (?q + 4 - sf) mod vpf)"
    if "p \<in> set (take (nat vpf) nnbrs)"
  proof -
    from InList_position [OF that] have q: "0 \<le> ?q" "?q < vpf" "load nnbrs ?q = Some p"
      "\<forall>j. 0 \<le> j \<and> j < ?q \<longrightarrow> load nnbrs j \<noteq> Some p"
      by blast+
    have "0 < vpf" using s by simp
    then have "(?q + 1) smod vpf = (?q + 1) mod vpf" using q(1) by (simp add: smod_nonneg)
    moreover have "(?q + 4 - sf) smod vpf = (?q + 4 - sf) mod vpf" if "sf \<le> 4"
      using q(1) that \<open>0 < vpf\<close> by (simp add: smod_nonneg)
    ultimately show ?thesis using q by blast
  qed
  show ?thesis
    by (rule exI [of _ nbrs], rule exI [of _ nface], rule exI [of _ nnbrs], rule exI [of _ ?q])
       (use rd fl cells pos in simp)
qed

theorem flanking_zone_offsets_witness:
  "BuildAllStencils 0 3 2 2 tri_marked = Some tri_stenciled
   \<and> load (ff_local tri_marked) 1 = Some [2, 0, 3] \<and> InList 3 [2, 0, 3] (0::int) = 1
   \<and> zl_load (stencil_zonelist tri_stenciled) 0 1 2 = load [2, 0, 3] ((1 + 1) mod 3)
   \<and> zl_load (stencil_zonelist tri_stenciled) 0 1 4 = load [2, 0, 3] ((1 + 4 - 2) mod 3)"
proof -
  have h: "(0::int) \<le> 0" "0 < n_faces_withghost tri_marked"
    "load (face_mask tri_marked) 0 = Some 2" "BITS_RAISED (2 :: 16 word) 2" "(1::int) \<le> 1" "(1::int) \<le> 3"
    by (simp_all add: tri_marked_def tri_block_def load_def BITS_RAISED_def)
  from flanking_zone_offsets [OF tri_stencils h] obtain nbrs where "load (ff_local tri_marked) 0 = Some nbrs"
    by blast
  then show ?thesis
    using tri_stencils
    by (simp add: tri_stenciled_def tri_marked_def tri_block_def zonelist_of_def zl_load_def load_def InList_def)
qed

section \<open>MarkStenciledArea\<close>

lemma for_each_append:
  "for_each (xs @ ys) body s = (case for_each xs body s of None \<Rightarrow> None | Some t \<Rightarrow> for_each ys body t)"
  by (induction xs arbitrary: s) (auto split: option.splits)

lemma for_each_row: "for_each (map (Pair i) js) (\<lambda>(i, j). g i j) s = for_each js (g i) s"
  by (induction js arbitrary: s) (auto split: option.splits)

lemma for_each_nested:
  "for_each is (\<lambda>i. for_each (js i) (g i)) s
     = for_each (concat (map (\<lambda>i. map (Pair i) (js i)) is)) (\<lambda>(i, j). g i j) s"
  by (induction "is" arbitrary: s) (auto simp: for_each_append for_each_row split: option.splits)

lemma sector_faces_Nil: "sector_faces b [] = {}"
  by (simp add: sector_faces_def)

lemma sector_faces_Cons:
  assumes "load (face_index_sector b) i = Some row" and "load row j = Some face"
  shows "sector_faces b ((i, j) # cells) = insert face (sector_faces b cells)"
  using assms by (auto simp: sector_faces_def)

lemma update_face_mask_Some:
  assumes "update_face_mask f b i j fm = Some fm'"
  obtains row face where "load (face_index_sector b) i = Some row" "load row j = Some face"
    "0 \<le> face" "face < int (length fm)" "fm' = fm[nat face := f (fm ! nat face)]"
  using assms unfolding update_face_mask_def bind_eq_Some_conv load_Some_iff store_Some_iff
  by (elim exE conjE) blast

text \<open>A pass over a list of cells of the sector that applies \<open>f\<close> to the mask of each face it meets.\<close>

lemma mask_pass:
  assumes "for_each cells (\<lambda>(i, j). update_face_mask f b i j) fm = Some fm'"
    and idem: "\<And>x. f (f x) = f x"
  shows "length fm' = length fm
    \<and> (\<forall>face < length fm. fm' ! face = (if int face \<in> sector_faces b cells then f (fm ! face) else fm ! face))"
  using assms(1)
proof (induction cells arbitrary: fm)
  case Nil
  then show ?case by (simp add: sector_faces_Nil)
next
  case (Cons c cells)
  obtain i j where c: "c = (i, j)" by (cases c) auto
  from Cons.prems c obtain fm1 where
    step: "update_face_mask f b i j fm = Some fm1"
    and rest: "for_each cells (\<lambda>(i, j). update_face_mask f b i j) fm1 = Some fm'"
    by (auto split: option.splits)
  from step obtain row face0 where r: "load (face_index_sector b) i = Some row" "load row j = Some face0"
    "0 \<le> face0" "face0 < int (length fm)" "fm1 = fm[nat face0 := f (fm ! nat face0)]"
    by (rule update_face_mask_Some)
  have sf: "sector_faces b (c # cells) = insert face0 (sector_faces b cells)"
    unfolding c by (rule sector_faces_Cons [OF r(1,2)])
  from Cons.IH [OF rest] have len: "length fm' = length fm1"
    and ih: "\<And>face. face < length fm1 \<Longrightarrow>
      fm' ! face = (if int face \<in> sector_faces b cells then f (fm1 ! face) else fm1 ! face)"
    by simp_all
  have len1: "length fm1 = length fm" using r(5) by simp
  have "fm' ! face = (if int face \<in> sector_faces b (c # cells) then f (fm ! face) else fm ! face)"
    if "face < length fm" for face
  proof (cases "int face = face0")
    case True
    then have "nat face0 = face" by simp
    then have "fm1 ! face = f (fm ! face)" using r(5) that by simp
    then show ?thesis using ih [of face] that len1 sf True idem by simp
  next
    case False
    then have "nat face0 \<noteq> face" using r(3) by auto
    then have "fm1 ! face = fm ! face" using r(5) by simp
    then show ?thesis using ih [of face] that len1 sf False by simp
  qed
  then show ?case using len len1 by simp
qed

lemma LOWER_BITS_idem: "LOWER_BITS (LOWER_BITS x bits) bits = LOWER_BITS x bits"
  by (simp add: LOWER_BITS_def and.assoc)

lemma LOWER_BITS_not_raised: "bits \<noteq> 0 \<Longrightarrow> \<not> BITS_RAISED (LOWER_BITS x bits) bits"
proof
  assume nz: "bits \<noteq> 0" and "BITS_RAISED (LOWER_BITS x bits) bits"
  then have "(x AND NOT bits) AND bits = bits" by (simp add: BITS_RAISED_def LOWER_BITS_def)
  moreover have "(x AND NOT bits) AND bits = 0"
    by (rule bit_eqI) (auto simp: bit_and_iff bit_not_iff)
  ultimately show False using nz by simp
qed

lemma clip_SE_pass:
  "clip_SE MaxFaceJ sf STEN b fm
     = for_each (SE_wedge MaxFaceJ sf b) (\<lambda>(i, j). update_face_mask (\<lambda>x. LOWER_BITS x STEN) b i j) fm"
  by (simp add: clip_SE_def SE_wedge_def Let_def for_each_nested)

lemma clip_N_pass:
  "clip_N MaxFaceJ MaxVertJ STEN b fm
     = for_each (N_wedge MaxFaceJ MaxVertJ b) (\<lambda>(i, j). update_face_mask (\<lambda>x. LOWER_BITS x STEN) b i j) fm"
  by (simp add: clip_N_def N_wedge_def Let_def for_each_nested)

text \<open>
  C9. After the pass that marks the interior and one layer of faces, a block of triangles
  has the flag \<open>GEOELM_STEN\<close> lowered on exactly the faces that the loops over the wedge at
  the SE corner and over the wedge at the N corner visit; every other mask stays as the
  marking pass left it. In a block of quadrilaterals the masks stay as the marking pass
  left them.
\<close>

theorem clipping_of_wedges:
  assumes run: "MarkStenciledArea MaxFaceJ MaxVertJ vpf sf STEN b = Some b'"
  shows "\<exists>fm1. mark_interior MaxFaceJ sf STEN b (face_mask b) = Some fm1
    \<and> length (face_mask b') = length fm1
    \<and> (vpf = 4 \<longrightarrow> face_mask b' = fm1)
    \<and> (vpf = 3 \<longrightarrow> (\<forall>face < length fm1.
          if int face \<in> sector_faces b (SE_wedge MaxFaceJ sf b) \<union> sector_faces b (N_wedge MaxFaceJ MaxVertJ b)
          then face_mask b' ! face = LOWER_BITS (fm1 ! face) STEN
             \<and> (STEN \<noteq> 0 \<longrightarrow> \<not> BITS_RAISED (face_mask b' ! face) STEN)
          else face_mask b' ! face = fm1 ! face))"
proof -
  from run obtain fm1 fm3 where m: "mark_interior MaxFaceJ sf STEN b (face_mask b) = Some fm1"
    and c: "(if vpf = 3 then do {
                fm2 \<leftarrow> clip_SE MaxFaceJ sf STEN b fm1;
                clip_N MaxFaceJ MaxVertJ STEN b fm2
              }
              else Some fm1) = Some fm3"
    and b': "face_mask b' = fm3"
    unfolding MarkStenciledArea_def bind_eq_Some_conv by auto
  have quad: "face_mask b' = fm1" if "vpf \<noteq> 3" using c b' that by simp
  have tri: "length fm3 = length fm1 \<and> (\<forall>face < length fm1.
          if int face \<in> sector_faces b (SE_wedge MaxFaceJ sf b) \<union> sector_faces b (N_wedge MaxFaceJ MaxVertJ b)
          then fm3 ! face = LOWER_BITS (fm1 ! face) STEN
             \<and> (STEN \<noteq> 0 \<longrightarrow> \<not> BITS_RAISED (fm3 ! face) STEN)
          else fm3 ! face = fm1 ! face)" if "vpf = 3"
  proof -
    from c that obtain fm2 where se: "clip_SE MaxFaceJ sf STEN b fm1 = Some fm2"
      and n: "clip_N MaxFaceJ MaxVertJ STEN b fm2 = Some fm3"
      by (auto simp: bind_eq_Some_conv)
    from mask_pass [OF se [unfolded clip_SE_pass] LOWER_BITS_idem]
    have l2: "length fm2 = length fm1"
      and f2: "\<And>face. face < length fm1 \<Longrightarrow> fm2 ! face =
        (if int face \<in> sector_faces b (SE_wedge MaxFaceJ sf b) then LOWER_BITS (fm1 ! face) STEN else fm1 ! face)"
      by simp_all
    from mask_pass [OF n [unfolded clip_N_pass] LOWER_BITS_idem]
    have l3: "length fm3 = length fm2"
      and f3: "\<And>face. face < length fm2 \<Longrightarrow> fm3 ! face =
        (if int face \<in> sector_faces b (N_wedge MaxFaceJ MaxVertJ b) then LOWER_BITS (fm2 ! face) STEN else fm2 ! face)"
      by simp_all
    have "if int face \<in> sector_faces b (SE_wedge MaxFaceJ sf b) \<union> sector_faces b (N_wedge MaxFaceJ MaxVertJ b)
          then fm3 ! face = LOWER_BITS (fm1 ! face) STEN
             \<and> (STEN \<noteq> 0 \<longrightarrow> \<not> BITS_RAISED (fm3 ! face) STEN)
          else fm3 ! face = fm1 ! face" if "face < length fm1" for face
      using f2 [OF that] f3 [of face] that l2
      by (auto simp: LOWER_BITS_idem LOWER_BITS_not_raised)
    then show ?thesis using l2 l3 by (simp add: LOWER_BITS_not_raised)
  qed
  show ?thesis
  proof (rule exI [of _ fm1], intro conjI impI)
    show "length (face_mask b') = length fm1"
      using quad tri b' by (cases "vpf = 3") simp_all
    show "face_mask b' = fm1" if "vpf = 4" using quad that by simp
    show "\<forall>face < length fm1.
          if int face \<in> sector_faces b (SE_wedge MaxFaceJ sf b) \<union> sector_faces b (N_wedge MaxFaceJ MaxVertJ b)
          then face_mask b' ! face = LOWER_BITS (fm1 ! face) STEN
             \<and> (STEN \<noteq> 0 \<longrightarrow> \<not> BITS_RAISED (face_mask b' ! face) STEN)
          else face_mask b' ! face = fm1 ! face" if "vpf = 3"
      using tri [OF that] b' by (simp add: LOWER_BITS_not_raised)
  qed (fact m)
qed

lemma tri_marking: "MarkStenciledArea toy_MaxFaceJ toy_MaxVertJ 3 2 2 tri_block = Some tri_marked"
  by (simp add: upto.simps MarkStenciledArea_def mark_interior_def clip_SE_def clip_N_def
      update_face_mask_def toy_MaxFaceJ_def toy_MaxVertJ_def load_def store_def RAISE_BITS_def
      LOWER_BITS_def tri_marked_def tri_block_def eval_nat_numeral)

theorem clipping_of_wedges_witness:
  "MarkStenciledArea toy_MaxFaceJ toy_MaxVertJ 3 2 2 tri_block = Some tri_marked
   \<and> mark_interior toy_MaxFaceJ 2 2 tri_block (face_mask tri_block) = Some [2, 2, 2, 2, 3, 1, 1]
   \<and> SE_wedge toy_MaxFaceJ 2 tri_block = [(1, 0), (2, 0), (2, 1), (2, 2)]
   \<and> N_wedge toy_MaxFaceJ toy_MaxVertJ tri_block = [(1, 1), (2, 1), (2, 2), (2, 3)]
   \<and> face_mask tri_marked = [2, 0, 0, 0, 1, 1, 1]
   \<and> map_option face_mask (MarkStenciledArea toy_MaxFaceJ toy_MaxVertJ 4 2 2 tri_block) = Some [2, 2, 2, 2, 3, 1, 1]"
proof -
  from clipping_of_wedges [OF tri_marking] obtain fm1 where
    "mark_interior toy_MaxFaceJ 2 2 tri_block (face_mask tri_block) = Some fm1" by blast
  moreover have "mark_interior toy_MaxFaceJ 2 2 tri_block (face_mask tri_block) = Some [2, 2, 2, 2, 3, 1, 1]"
    by (simp add: upto.simps mark_interior_def update_face_mask_def toy_MaxFaceJ_def load_def store_def
        RAISE_BITS_def tri_block_def eval_nat_numeral)
  moreover have "SE_wedge toy_MaxFaceJ 2 tri_block = [(1, 0), (2, 0), (2, 1), (2, 2)]"
    "N_wedge toy_MaxFaceJ toy_MaxVertJ tri_block = [(1, 1), (2, 1), (2, 2), (2, 3)]"
    by (simp_all add: upto.simps SE_wedge_def N_wedge_def toy_MaxFaceJ_def toy_MaxVertJ_def tri_block_def)
  moreover have "map_option face_mask (MarkStenciledArea toy_MaxFaceJ toy_MaxVertJ 4 2 2 tri_block)
      = Some [2, 2, 2, 2, 3, 1, 1]"
    by (simp add: upto.simps MarkStenciledArea_def mark_interior_def update_face_mask_def toy_MaxFaceJ_def
        load_def store_def RAISE_BITS_def tri_block_def eval_nat_numeral)
  ultimately show ?thesis using tri_marking by (simp add: tri_marked_def tri_block_def)
qed

section \<open>The order of the phases\<close>

lemma run_phase_trace:
  assumes "run_phase ph f st = Some st'"
  shows "snd st' = snd st @ [ph]"
  using assms by (cases st) (auto simp: run_phase_def bind_eq_Some_conv)

lemma SetDimensions_trace:
  assumes "SetDimensions base MaxFaceJ MaxVertJ junk_d junk_v vpf sf STEN width wghost height hghost constr (b, tr)
    = Some (b', tr')"
  shows "tr' = tr @ [RegionMarking]"
proof -
  from assms obtain b1 b2 tr2 where
    m: "run_phase RegionMarking (MarkStenciledArea MaxFaceJ MaxVertJ vpf sf STEN) (b1, tr) = Some (b2, tr2)"
    and r: "tr' = tr2"
    by (auto simp: SetDimensions_def bind_eq_Some_conv Let_def split: prod.splits)
  from run_phase_trace [OF m] r show ?thesis by simp
qed

lemma matrix_loop_trace:
  assumes "for_each faces
          (\<lambda>pface st. do {
             flags \<leftarrow> load (face_mask (fst st)) pface;
             if BITS_RAISED flags STEN then
               for_each stencils (\<lambda>stencil. run_phase MatrixBuild (ComputeOneMatrix r pface stencil)) st
             else Some st
           }) st2 = Some st3"
  shows "\<exists>k. snd st3 = snd st2 @ replicate k MatrixBuild"
proof (rule for_each_invariant [where I = "\<lambda>st. \<exists>k. snd st = snd st2 @ replicate k MatrixBuild", OF assms])
  show "\<exists>k. snd st2 = snd st2 @ replicate k MatrixBuild" by (rule exI [of _ 0]) simp
next
  fix pface st t
  assume I: "\<exists>k. snd st = snd st2 @ replicate k MatrixBuild"
    and step: "do {
             flags \<leftarrow> load (face_mask (fst st)) pface;
             if BITS_RAISED flags STEN then
               for_each stencils (\<lambda>stencil. run_phase MatrixBuild (ComputeOneMatrix r pface stencil)) st
             else Some st
           } = Some t"
  from step obtain flags where fl: "load (face_mask (fst st)) pface = Some flags"
    by (auto simp: bind_eq_Some_conv)
  show "\<exists>k. snd t = snd st2 @ replicate k MatrixBuild"
  proof (cases "BITS_RAISED flags STEN")
    case True
    with step fl have inner:
      "for_each stencils (\<lambda>stencil. run_phase MatrixBuild (ComputeOneMatrix r pface stencil)) st = Some t"
      by simp
    show ?thesis
    proof (rule for_each_invariant [where I = "\<lambda>st. \<exists>k. snd st = snd st2 @ replicate k MatrixBuild", OF inner I])
      fix stencil u v
      assume "\<exists>k. snd u = snd st2 @ replicate k MatrixBuild"
        and "run_phase MatrixBuild (ComputeOneMatrix r pface stencil) u = Some v"
      then obtain k where "snd u = snd st2 @ replicate k MatrixBuild" "snd v = snd u @ [MatrixBuild]"
        using run_phase_trace by blast
      then have "snd v = snd st2 @ replicate (Suc k) MatrixBuild"
        by (simp add: replicate_append_same)
      then show "\<exists>k. snd v = snd st2 @ replicate k MatrixBuild" by blast
    qed
  next
    case False
    with step fl I show ?thesis by simp
  qed
qed

lemma AssociateMesh_trace:
  assumes "AssociateMesh base A C junk r vpf sf NEXI STEN (b, tr) = Some (b', tr')"
  shows "\<exists>k. tr' = tr @ [StencilBuild, Moments] @ replicate k MatrixBuild"
proof -
  from assms obtain b0 st1 st2 where
    s: "run_phase StencilBuild (BuildAllStencils junk vpf sf STEN) (b0, tr) = Some st1"
    and m: "run_phase Moments (ComputeMoments A C vpf NEXI) st1 = Some st2"
    and l: "for_each [0 .. n_faces_withghost (fst st2) - 1]
          (\<lambda>pface st. do {
             flags \<leftarrow> load (face_mask (fst st)) pface;
             if BITS_RAISED flags STEN then
               for_each [0 .. n_stencils vpf - 1]
                 (\<lambda>stencil. run_phase MatrixBuild (ComputeOneMatrix r pface stencil)) st
             else Some st
           }) st2 = Some (b', tr')"
    by (auto simp: AssociateMesh_def bind_eq_Some_conv)
  from matrix_loop_trace [OF l] obtain k where "tr' = snd st2 @ replicate k MatrixBuild" by auto
  moreover have "snd st2 = tr @ [StencilBuild, Moments]"
    using run_phase_trace [OF s] run_phase_trace [OF m] by simp
  ultimately show ?thesis by auto
qed

lemma tri_construction:
  "map_option snd (construct_block toy_MaxFaceJ toy_MaxVertJ 7 (GeoVector 7 7 7) Some (\<lambda>a b c. 1 / 2) mean_center
      0 (1 / 4) 3 2 1 2 3 1 1 1 tri_block)
   = Some [RegionMarking, StencilBuild, Moments, MatrixBuild, MatrixBuild, MatrixBuild, MatrixBuild,
           MatrixBuild, MatrixBuild, MatrixBuild]"
  by (simp add: upto.simps construct_block_def SetDimensions_def AssociateMesh_def run_phase_def
      MarkStenciledArea_def mark_interior_def clip_SE_def clip_N_def
      update_face_mask_def toy_MaxFaceJ_def toy_MaxVertJ_def RAISE_BITS_def LOWER_BITS_def
      BuildAllStencils_def BuildAllStencils_face_def set_zones_per_stencil_def
      allocate_zonelists_def central_stencil_def directional_stencil_def zl_store_pair_def zl_store_def
      n_stencils_def InList_def signed_modulo_int_def
      ComputeMoments_def ComputeMoments_face_def ComputeMoments_edge_def
      face_triangles_def face_vertex_def mean_center_def gv_zeros_def
      ComputeOneMatrix_def geom_matr_A_def matrix_row_def matrix_entry_def zl_load_def
      zonelist_of_def rp_factor_def store2_def mat_mul_def
      load_def store_def BITS_RAISED_def tri_block_def eval_nat_numeral)

text \<open>
  C4, as stated: the phases follow each other in the order moments, region marking,
  stencil build, matrix build. The construction of the example block marks the region
  and builds the stencils before it computes the moments.
\<close>

theorem moments_not_first:
  "map_option snd (construct_block toy_MaxFaceJ toy_MaxVertJ 7 (GeoVector 7 7 7) Some (\<lambda>a b c. 1 / 2) mean_center
      0 (1 / 4) 3 2 1 2 3 1 1 1 tri_block)
   = Some [RegionMarking, StencilBuild, Moments, MatrixBuild, MatrixBuild, MatrixBuild, MatrixBuild,
           MatrixBuild, MatrixBuild, MatrixBuild]
   \<and> \<not> in_phase_order [Moments, RegionMarking, StencilBuild, MatrixBuild]
         [RegionMarking, StencilBuild, Moments, MatrixBuild, MatrixBuild, MatrixBuild, MatrixBuild,
           MatrixBuild, MatrixBuild, MatrixBuild]"
  using tri_construction by (simp add: in_phase_order_def)

text \<open>
  C4, amended. The construction of a block runs its phases in the order region marking
  (in \<open>SetDimensions\<close>, called by the constructor), stencil build, moments, matrix build
  (the last three in \<open>AssociateMesh\<close>): the region is marked once, then the stencils are
  built once, then the moments are computed once, and the matrices are assembled last.
\<close>

theorem construction_phase_order:
  assumes "construct_block MaxFaceJ MaxVertJ junk_d junk_v base A C junk r vpf sf NEXI STEN
      width wghost height hghost b = Some (b', tr)"
  shows "(\<exists>k. tr = [RegionMarking, StencilBuild, Moments] @ replicate k MatrixBuild)
    \<and> in_phase_order [RegionMarking, StencilBuild, Moments, MatrixBuild] tr"
proof -
  from assms obtain b1 tr1 where
    d: "SetDimensions (\<lambda>w wg h hg c. Some) MaxFaceJ MaxVertJ junk_d junk_v vpf sf STEN
          width wghost height hghost True (b, []) = Some (b1, tr1)"
    and a: "AssociateMesh base A C junk r vpf sf NEXI STEN (b1, tr1) = Some (b', tr)"
    by (auto simp: construct_block_def bind_eq_Some_conv)
  from SetDimensions_trace [OF d] have "tr1 = [RegionMarking]" by simp
  with AssociateMesh_trace [OF a] obtain k where
    tr: "tr = [RegionMarking, StencilBuild, Moments] @ replicate k MatrixBuild" by auto
  have "in_phase_order [RegionMarking, StencilBuild, Moments, MatrixBuild] tr"
    unfolding tr by (simp add: in_phase_order_def sorted_append)
  with tr show ?thesis by blast
qed

theorem construction_phase_order_witness:
  "map_option snd (construct_block toy_MaxFaceJ toy_MaxVertJ 7 (GeoVector 7 7 7) Some (\<lambda>a b c. 1 / 2) mean_center
      0 (1 / 4) 3 2 1 2 3 1 1 1 tri_block)
   = Some ([RegionMarking, StencilBuild, Moments] @ replicate 7 MatrixBuild)
   \<and> in_phase_order [RegionMarking, StencilBuild, Moments, MatrixBuild]
        ([RegionMarking, StencilBuild, Moments] @ replicate 7 MatrixBuild)"
proof -
  let ?tr = "[RegionMarking, StencilBuild, Moments, MatrixBuild, MatrixBuild, MatrixBuild, MatrixBuild,
           MatrixBuild, MatrixBuild, MatrixBuild]"
  from tri_construction obtain b' where
    run: "construct_block toy_MaxFaceJ toy_MaxVertJ 7 (GeoVector 7 7 7) Some (\<lambda>a b c. 1 / 2) mean_center
      0 (1 / 4) 3 2 1 2 3 1 1 1 tri_block = Some (b', ?tr)"
    by auto
  have eq: "[RegionMarking, StencilBuild, Moments] @ replicate 7 MatrixBuild = ?tr"
    by (simp add: eval_nat_numeral)
  from construction_phase_order [OF run]
  have "in_phase_order [RegionMarking, StencilBuild, Moments, MatrixBuild] ?tr" by blast
  then show ?thesis using tri_construction unfolding eq by simp
qed

end
